theory Spec2Isabelle
  imports Main "HOL-Library.AList"
begin

section \<open>Domain model (src/domain/models.py)\<close>

text \<open>
  The dataclasses \<open>Variant\<close>, \<open>DocumentItem\<close> and \<open>Document\<close>. Python's unbounded
  \<open>int\<close> is HOL's \<open>int\<close>, \<open>Optional[int]\<close> is \<open>int option\<close>. The fields \<open>id\<close>
  and \<open>size\<close> carry a suffix, since \<open>id\<close> and \<open>size\<close> are constants of HOL. The
  fields that no operation of the inventory service reads (\<open>unit_price\<close>, a float;
  \<open>doc_date\<close>, \<open>created_at\<close>; the display-only \<open>variant\<close> link of an item and
  the names the repository attaches to a fetched item) are left out.
\<close>

record variant =
  product_id :: int
  size_v :: string
  color :: string
  sku :: string
  stock_qty :: int
  safety_stock :: int
  id_v :: "int option"

record document_item =
  variant_id :: int
  quantity :: int
  id_i :: "int option"

record document =
  doc_type :: string
  items :: "document_item list"
  note_d :: string
  id_d :: "int option"

definition display_name :: "variant \<Rightarrow> string" where
  "display_name v = size_v v @ '' / '' @ color v"

definition is_low_stock :: "variant \<Rightarrow> bool" where
  "is_low_stock v \<longleftrightarrow> stock_qty v \<le> safety_stock v"

section \<open>Errors (src/domain/exceptions.py)\<close>

text \<open>
  The exception classes raised on the paths modelled here. The messages of the source
  are f-strings over non-ASCII text; a message is kept as its template together with
  the values interpolated into it. \<open>AttributeError\<close> is Python's own exception for
  an attribute access on \<open>None\<close>.
\<close>

datatype message =
    TypeMustBe string
  | VariantIdMissing int
  | StockShort string int int
  | NegativeAfterAdjust string
  | DocumentIdMissing int
  | RollbackShort string int int
  | VariantWithoutId
  | VariantRowMissing int

datatype error =
    RepositoryError message
  | EntityNotFoundError message
  | BusinessRuleViolation message
  | OutOfStockError message
  | AttributeError

section \<open>The two stores (src/application/interfaces.py, src/infrastructure/repositories.py)\<close>

text \<open>
  The service talks to \<open>SqliteProductRepository\<close> and \<open>SqliteDocumentRepository\<close>
  through \<open>IProductRepository\<close> and \<open>IDocumentRepository\<close>. The database is a
  record of its tables: \<open>products\<close>, \<open>variants\<close> and \<open>documents\<close>, each keyed by
  the row id, and the ids the next inserted document and item row get
  (\<open>cursor.lastrowid\<close>). A row has the columns of its dataclass except the key; the
  float column \<open>base_price\<close> and the time stamps are left out. The rows of
  \<open>document_items\<close> are kept with the document they belong to (their \<open>doc_id\<close>), in
  the order of their insertion. The two counters only grow, so an id is never handed out
  twice.
\<close>

record product_row =
  row_name :: string
  row_brand :: string
  row_category :: "string option"
  row_description :: string

record variant_row =
  row_product_id :: int
  row_size :: string
  row_color :: string
  row_sku :: string
  row_stock_qty :: int
  row_safety_stock :: int

record document_item_row =
  row_id_i :: int
  row_variant_id :: int
  row_quantity :: int

record document_row =
  row_doc_type :: string
  row_note :: string
  row_items :: "document_item_row list"

record store =
  products :: "int \<rightharpoonup> product_row"
  variants :: "int \<rightharpoonup> variant_row"
  documents :: "int \<rightharpoonup> document_row"
  next_doc_id :: int
  next_item_id :: int

definition map_row_to_variant :: "int \<Rightarrow> variant_row \<Rightarrow> variant" where
  "map_row_to_variant k row =
     \<lparr>product_id = row_product_id row, size_v = row_size row, color = row_color row,
      sku = row_sku row, stock_qty = row_stock_qty row,
      safety_stock = row_safety_stock row, id_v = Some k\<rparr>"

definition get_variant_by_id :: "store \<Rightarrow> int \<Rightarrow> variant option" where
  "get_variant_by_id s k = map_option (map_row_to_variant k) (variants s k)"

text \<open>
  \<open>update_variant\<close> refuses a variant without id and one whose row does not exist
  (\<open>rowcount == 0\<close>); otherwise it writes every column but \<open>product_id\<close>.
\<close>

definition update_variant :: "variant \<Rightarrow> store \<Rightarrow> error + store" where
  "update_variant v s =
     (case id_v v of
        None \<Rightarrow> Inl (RepositoryError VariantWithoutId)
      | Some k \<Rightarrow>
          (case variants s k of
             None \<Rightarrow> Inl (EntityNotFoundError (VariantRowMissing k))
           | Some row \<Rightarrow>
               Inr (s\<lparr>variants := (variants s)(k \<mapsto>
                      row\<lparr>row_size := size_v v, row_color := color v, row_sku := sku v,
                          row_stock_qty := stock_qty v,
                          row_safety_stock := safety_stock v\<rparr>)\<rparr>)))"

text \<open>
  \<open>add_document\<close> inserts the header, sets the new id on the document it was handed,
  inserts one row for each item (\<open>executemany\<close>, in the order of the items) and
  returns the document. The items of the returned document are the ones handed in: the
  ids of the item rows are not written back to them.
\<close>

fun item_rows :: "int \<Rightarrow> document_item list \<Rightarrow> document_item_row list" where
  "item_rows n [] = []"
| "item_rows n (item # rest) =
     \<lparr>row_id_i = n, row_variant_id = variant_id item, row_quantity = quantity item\<rparr>
       # item_rows (n + 1) rest"

definition add_document :: "document \<Rightarrow> store \<Rightarrow> document \<times> store" where
  "add_document d s =
     (let new_doc_id = next_doc_id s;
          d' = d\<lparr>id_d := Some new_doc_id\<rparr>
      in (d', s\<lparr>documents := (documents s)(new_doc_id \<mapsto>
                  \<lparr>row_doc_type = doc_type d, row_note = note_d d,
                   row_items = item_rows (next_item_id s) (items d)\<rparr>),
                next_doc_id := new_doc_id + 1,
                next_item_id := next_item_id s + int (length (items d))\<rparr>))"

text \<open>
  \<open>get_document_by_id\<close> reads the header and then the item rows of the document
  through an inner join with \<open>variants\<close> and \<open>products\<close>: an item row whose variant
  is missing, or whose variant's product is missing, is not returned. Each returned item
  carries the id of its row. The query has no \<open>ORDER BY\<close>; the rows are taken in the
  order of their insertion.
\<close>

definition joined :: "store \<Rightarrow> document_item_row \<Rightarrow> bool" where
  "joined s r =
     (case variants s (row_variant_id r) of
        None \<Rightarrow> False
      | Some v \<Rightarrow> (case products s (row_product_id v) of None \<Rightarrow> False | Some p \<Rightarrow> True))"

definition map_row_to_item :: "document_item_row \<Rightarrow> document_item" where
  "map_row_to_item r =
     \<lparr>variant_id = row_variant_id r, quantity = row_quantity r, id_i = Some (row_id_i r)\<rparr>"

definition map_row_to_document :: "int \<Rightarrow> document_row \<Rightarrow> document" where
  "map_row_to_document k row =
     \<lparr>doc_type = row_doc_type row, items = [], note_d = row_note row, id_d = Some k\<rparr>"

definition get_document_by_id :: "store \<Rightarrow> int \<Rightarrow> document option" where
  "get_document_by_id s k =
     (case documents s k of
        None \<Rightarrow> None
      | Some row \<Rightarrow>
          Some ((map_row_to_document k row)
                  \<lparr>items := map map_row_to_item (filter (joined s) (row_items row))\<rparr>))"

text \<open>
  Deleting an id that is not stored only logs a warning. The header goes together with
  its item rows.
\<close>

definition repo_delete_document :: "int \<Rightarrow> store \<Rightarrow> store" where
  "repo_delete_document k s = s\<lparr>documents := (documents s)(k := None)\<rparr>"

section \<open>The inventory service (src/application/services.py)\<close>

text \<open>
  Every operation takes the store and returns its result together with the store it
  leaves behind, also when it raises: an exception in the middle of a loop keeps the
  writes made before it.
\<close>

subsection \<open>create_inbound_order\<close>

fun inbound_items :: "document_item list \<Rightarrow> store \<Rightarrow> (error + unit) \<times> store" where
  "inbound_items [] s = (Inr (), s)"
| "inbound_items (item # rest) s =
     (case get_variant_by_id s (variant_id item) of
        None \<Rightarrow> inbound_items rest s
      | Some v \<Rightarrow>
          (case update_variant (v\<lparr>stock_qty := stock_qty v + quantity item\<rparr>) s of
             Inl e \<Rightarrow> (Inl e, s)
           | Inr s' \<Rightarrow> inbound_items rest s'))"

definition create_inbound_order :: "document \<Rightarrow> store \<Rightarrow> (error + document) \<times> store" where
  "create_inbound_order d s =
     (if doc_type d \<noteq> ''INBOUND''
      then (Inl (BusinessRuleViolation (TypeMustBe ''INBOUND'')), s)
      else
        (case add_document d s of
           (saved_doc, s1) \<Rightarrow>
             (case inbound_items (items saved_doc) s1 of
                (Inl e, s2) \<Rightarrow> (Inl e, s2)
              | (Inr u, s2) \<Rightarrow> (Inr saved_doc, s2))))"

subsection \<open>create_outbound_order\<close>

fun outbound_precheck :: "document_item list \<Rightarrow> store \<Rightarrow> error option" where
  "outbound_precheck [] s = None"
| "outbound_precheck (item # rest) s =
     (case get_variant_by_id s (variant_id item) of
        None \<Rightarrow> Some (EntityNotFoundError (VariantIdMissing (variant_id item)))
      | Some v \<Rightarrow>
          (if stock_qty v < quantity item
           then Some (OutOfStockError
                  (StockShort (display_name v) (stock_qty v) (quantity item)))
           else outbound_precheck rest s))"

fun outbound_items :: "document_item list \<Rightarrow> store \<Rightarrow> (error + unit) \<times> store" where
  "outbound_items [] s = (Inr (), s)"
| "outbound_items (item # rest) s =
     (case get_variant_by_id s (variant_id item) of
        None \<Rightarrow> (Inl AttributeError, s)
      | Some v \<Rightarrow>
          (case update_variant (v\<lparr>stock_qty := stock_qty v - quantity item\<rparr>) s of
             Inl e \<Rightarrow> (Inl e, s)
           | Inr s' \<Rightarrow> outbound_items rest s'))"

definition create_outbound_order :: "document \<Rightarrow> store \<Rightarrow> (error + document) \<times> store" where
  "create_outbound_order d s =
     (if doc_type d \<noteq> ''OUTBOUND''
      then (Inl (BusinessRuleViolation (TypeMustBe ''OUTBOUND'')), s)
      else
        (case outbound_precheck (items d) s of
           Some e \<Rightarrow> (Inl e, s)
         | None \<Rightarrow>
             (case add_document d s of
                (saved_doc, s1) \<Rightarrow>
                  (case outbound_items (items saved_doc) s1 of
                     (Inl e, s2) \<Rightarrow> (Inl e, s2)
                   | (Inr u, s2) \<Rightarrow> (Inr saved_doc, s2)))))"

subsection \<open>create_adjustment_order\<close>

fun adjust_items :: "document_item list \<Rightarrow> store \<Rightarrow> (error + unit) \<times> store" where
  "adjust_items [] s = (Inr (), s)"
| "adjust_items (item # rest) s =
     (case get_variant_by_id s (variant_id item) of
        None \<Rightarrow> adjust_items rest s
      | Some v \<Rightarrow>
          (let new_qty = stock_qty v + quantity item
           in if new_qty < 0
              then (Inl (BusinessRuleViolation (NegativeAfterAdjust (display_name v))), s)
              else
                (case update_variant (v\<lparr>stock_qty := new_qty\<rparr>) s of
                   Inl e \<Rightarrow> (Inl e, s)
                 | Inr s' \<Rightarrow> adjust_items rest s')))"

definition create_adjustment_order :: "document \<Rightarrow> store \<Rightarrow> (error + document) \<times> store" where
  "create_adjustment_order d s =
     (if doc_type d \<noteq> ''ADJUST''
      then (Inl (BusinessRuleViolation (TypeMustBe ''ADJUST'')), s)
      else
        (case add_document d s of
           (saved_doc, s1) \<Rightarrow>
             (case adjust_items (items saved_doc) s1 of
                (Inl e, s2) \<Rightarrow> (Inl e, s2)
              | (Inr u, s2) \<Rightarrow> (Inr saved_doc, s2))))"

subsection \<open>delete_document\<close>

text \<open>
  The class defines \<open>delete_document\<close> twice with the same body; the second
  definition is the one in effect.
  \<open>impacts\<close> is a Python dict, which iterates in insertion order: an association
  list in which \<open>AList.update\<close> overwrites a key in place and appends a new one.
  \<open>impacts_get al k\<close> is \<open>impacts.get(k, 0)\<close>.
\<close>

definition impacts_get :: "(int \<times> int) list \<Rightarrow> int \<Rightarrow> int" where
  "impacts_get al k = (case map_of al k of None \<Rightarrow> 0 | Some c \<Rightarrow> c)"

definition rollback_change :: "string \<Rightarrow> document_item \<Rightarrow> int" where
  "rollback_change t item =
     (if t = ''INBOUND'' then - quantity item
      else if t = ''OUTBOUND'' then quantity item
      else if t = ''ADJUST'' then - quantity item
      else 0)"

fun compute_impacts ::
  "string \<Rightarrow> document_item list \<Rightarrow> (int \<times> int) list \<Rightarrow> (int \<times> int) list" where
  "compute_impacts t [] impacts = impacts"
| "compute_impacts t (item # rest) impacts =
     compute_impacts t rest
       (AList.update (variant_id item)
          (impacts_get impacts (variant_id item) + rollback_change t item) impacts)"

fun strict_check :: "(int \<times> int) list \<Rightarrow> store \<Rightarrow> error option" where
  "strict_check [] s = None"
| "strict_check ((vid, change) # rest) s =
     (if change < 0
      then
        (case get_variant_by_id s vid of
           None \<Rightarrow> strict_check rest s
         | Some v \<Rightarrow>
             (let final_qty = stock_qty v + change
              in if final_qty < 0
                 then Some (BusinessRuleViolation
                        (RollbackShort (display_name v) (stock_qty v) \<bar>change\<bar>))
                 else strict_check rest s))
      else strict_check rest s)"

fun apply_rollback :: "(int \<times> int) list \<Rightarrow> store \<Rightarrow> (error + unit) \<times> store" where
  "apply_rollback [] s = (Inr (), s)"
| "apply_rollback ((vid, change) # rest) s =
     (if change = 0 then apply_rollback rest s
      else
        (case get_variant_by_id s vid of
           None \<Rightarrow> apply_rollback rest s
         | Some v \<Rightarrow>
             (case update_variant (v\<lparr>stock_qty := stock_qty v + change\<rparr>) s of
                Inl e \<Rightarrow> (Inl e, s)
              | Inr s' \<Rightarrow> apply_rollback rest s')))"

definition delete_document :: "int \<Rightarrow> store \<Rightarrow> (error + unit) \<times> store" where
  "delete_document doc_id s =
     (case get_document_by_id s doc_id of
        None \<Rightarrow> (Inl (EntityNotFoundError (DocumentIdMissing doc_id)), s)
      | Some doc \<Rightarrow>
          (let impacts = compute_impacts (doc_type doc) (items doc) []
           in case strict_check impacts s of
                Some e \<Rightarrow> (Inl e, s)
              | None \<Rightarrow>
                  (case apply_rollback impacts s of
                     (Inl e, s1) \<Rightarrow> (Inl e, s1)
                   | (Inr u, s1) \<Rightarrow> (Inr (), repo_delete_document doc_id s1))))"

section \<open>Notions used to state the properties\<close>

text \<open>
  \<open>qty_sum k xs\<close> is the sum of the quantities of the items of \<open>xs\<close> that reference
  variant \<open>k\<close>; \<open>net_impact t xs k\<close> is the sum of their reversal deltas for a
  document of type \<open>t\<close>.
\<close>

definition qty_sum :: "int \<Rightarrow> document_item list \<Rightarrow> int" where
  "qty_sum k xs = sum_list (map quantity (filter (\<lambda>i. variant_id i = k) xs))"

definition net_impact :: "string \<Rightarrow> document_item list \<Rightarrow> int \<Rightarrow> int" where
  "net_impact t xs k = sum_list (map (rollback_change t) (filter (\<lambda>i. variant_id i = k) xs))"

text \<open>
  \<open>add_stock f s\<close> is the store \<open>s\<close> in which the stock of every existing variant
  \<open>k\<close> is raised by \<open>f k\<close>; nothing else differs.
\<close>

definition add_stock :: "(int \<Rightarrow> int) \<Rightarrow> store \<Rightarrow> store" where
  "add_stock f s =
     s\<lparr>variants := (\<lambda>k. map_option (\<lambda>r. r\<lparr>row_stock_qty := row_stock_qty r + f k\<rparr>) (variants s k))\<rparr>"

text \<open>
  \<open>document_row_of n d\<close> is the row \<open>add_document\<close> writes for document \<open>d\<close>
  when the next item row gets id \<open>n\<close>; \<open>fetched s k row\<close> is the document
  \<open>get_document_by_id\<close> builds from the row stored under id \<open>k\<close>.
\<close>

definition document_row_of :: "int \<Rightarrow> document \<Rightarrow> document_row" where
  "document_row_of n d =
     \<lparr>row_doc_type = doc_type d, row_note = note_d d, row_items = item_rows n (items d)\<rparr>"

definition fetched :: "store \<Rightarrow> int \<Rightarrow> document_row \<Rightarrow> document" where
  "fetched s k row =
     \<lparr>doc_type = row_doc_type row,
      items = map map_row_to_item (filter (joined s) (row_items row)),
      note_d = row_note row, id_d = Some k\<rparr>"

text \<open>
  An OUTBOUND item cannot be served from the store when its variant is missing or holds
  less than the item asks for; \<open>outbound_rejection\<close> is the error that belongs to
  such an item.
\<close>

definition item_unavailable :: "store \<Rightarrow> document_item \<Rightarrow> bool" where
  "item_unavailable s item \<longleftrightarrow>
     (case get_variant_by_id s (variant_id item) of
        None \<Rightarrow> True
      | Some v \<Rightarrow> stock_qty v < quantity item)"

definition outbound_rejection :: "store \<Rightarrow> document_item \<Rightarrow> error" where
  "outbound_rejection s item =
     (case get_variant_by_id s (variant_id item) of
        None \<Rightarrow> EntityNotFoundError (VariantIdMissing (variant_id item))
      | Some v \<Rightarrow>
          OutOfStockError (StockShort (display_name v) (stock_qty v) (quantity item)))"

text \<open>
  An ADJUST item is rejected after the items \<open>pre\<close> before it when its variant exists
  and the stock the variant started with, plus the quantities of the earlier items on
  that variant, plus the item's own quantity, is negative.
\<close>

definition adjust_rejects :: "store \<Rightarrow> document_item list \<Rightarrow> document_item \<Rightarrow> bool" where
  "adjust_rejects s pre item \<longleftrightarrow>
     (case get_variant_by_id s (variant_id item) of
        None \<Rightarrow> False
      | Some v \<Rightarrow> stock_qty v + qty_sum (variant_id item) pre + quantity item < 0)"

text \<open>
  The rollback of document \<open>doc\<close> is blocked by variant \<open>k\<close> when the net impact
  on \<open>k\<close> is negative, the variant exists, and its stock plus the impact is negative.
\<close>

definition rollback_blocked :: "store \<Rightarrow> document \<Rightarrow> int \<Rightarrow> bool" where
  "rollback_blocked s doc k \<longleftrightarrow>
     net_impact (doc_type doc) (items doc) k < 0 \<and>
     (case get_variant_by_id s k of
        None \<Rightarrow> False
      | Some v \<Rightarrow> stock_qty v + net_impact (doc_type doc) (items doc) k < 0)"

text \<open>The invariant of the data model: no variant of the store holds a negative stock.\<close>

definition stock_nonneg :: "store \<Rightarrow> bool" where
  "stock_nonneg s \<longleftrightarrow> (\<forall>k v. get_variant_by_id s k = Some v \<longrightarrow> 0 \<le> stock_qty v)"

text \<open>
  Sample data: one product with one variant, both with id 1, an empty document table,
  and items as a caller hands them in.
\<close>

abbreviation shoe :: product_row where
  "shoe \<equiv> \<lparr>row_name = ''runner'', row_brand = ''acme'', row_category = None,
     row_description = []\<rparr>"

abbreviation shoe_row :: "int \<Rightarrow> variant_row" where
  "shoe_row q \<equiv> \<lparr>row_product_id = 1, row_size = ''42'', row_color = ''red'',
     row_sku = ''1-42-red'', row_stock_qty = q, row_safety_stock = 5\<rparr>"

abbreviation shop :: "int \<Rightarrow> store" where
  "shop q \<equiv> \<lparr>products = [1 \<mapsto> shoe], variants = [1 \<mapsto> shoe_row q],
     documents = Map.empty, next_doc_id = 1, next_item_id = 1\<rparr>"

abbreviation line :: "int \<Rightarrow> int \<Rightarrow> document_item" where
  "line k q \<equiv> \<lparr>variant_id = k, quantity = q, id_i = None\<rparr>"

abbreviation slip :: "string \<Rightarrow> document_item list \<Rightarrow> document" where
  "slip t xs \<equiv> \<lparr>doc_type = t, items = xs, note_d = [], id_d = None\<rparr>"

text \<open>
  A document already stored under id 1: its row with the item rows, the store that holds
  it, and the document and items a read-back gives.
\<close>

abbreviation entry :: "int \<Rightarrow> int \<Rightarrow> int \<Rightarrow> document_item_row" where
  "entry i k q \<equiv> \<lparr>row_id_i = i, row_variant_id = k, row_quantity = q\<rparr>"

abbreviation sheet :: "string \<Rightarrow> document_item_row list \<Rightarrow> document_row" where
  "sheet t rows \<equiv> \<lparr>row_doc_type = t, row_note = [], row_items = rows\<rparr>"

abbreviation shop_with :: "int \<Rightarrow> document_row \<Rightarrow> store" where
  "shop_with q row \<equiv> \<lparr>products = [1 \<mapsto> shoe], variants = [1 \<mapsto> shoe_row q],
     documents = [1 \<mapsto> row], next_doc_id = 2, next_item_id = 3\<rparr>"

text \<open>The same shop when the row of product 1 is not in the product table.\<close>

abbreviation bare_shop :: "int \<Rightarrow> store" where
  "bare_shop q \<equiv> \<lparr>products = Map.empty, variants = [1 \<mapsto> shoe_row q],
     documents = Map.empty, next_doc_id = 1, next_item_id = 1\<rparr>"

abbreviation got :: "int \<Rightarrow> int \<Rightarrow> int \<Rightarrow> document_item" where
  "got i k q \<equiv> \<lparr>variant_id = k, quantity = q, id_i = Some i\<rparr>"

abbreviation filed :: "string \<Rightarrow> document_item list \<Rightarrow> document" where
  "filed t xs \<equiv> \<lparr>doc_type = t, items = xs, note_d = [], id_d = Some 1\<rparr>"

section \<open>Auxiliary lemmas\<close>

subsection \<open>The tables\<close>

lemma get_add_stock:
  "get_variant_by_id (add_stock f s) k =
     map_option (\<lambda>v. v\<lparr>stock_qty := stock_qty v + f k\<rparr>) (get_variant_by_id s k)"
  by (cases "variants s k") (simp_all add: get_variant_by_id_def add_stock_def map_row_to_variant_def)

lemma add_stock_fields [simp]:
  "products (add_stock f s) = products s"
  "documents (add_stock f s) = documents s"
  "next_doc_id (add_stock f s) = next_doc_id s"
  "next_item_id (add_stock f s) = next_item_id s"
  by (simp_all add: add_stock_def)

lemma add_stock_add_stock:
  "add_stock f (add_stock g s) = add_stock (\<lambda>k. g k + f k) s"
  by (simp add: add_stock_def fun_eq_iff option.map_comp comp_def add.assoc)

lemma add_stock_cong:
  "(\<And>k. variants s k \<noteq> None \<Longrightarrow> f k = g k) \<Longrightarrow> add_stock f s = add_stock g s"
proof -
  assume h: "\<And>k. variants s k \<noteq> None \<Longrightarrow> f k = g k"
  have "(\<lambda>k. map_option (\<lambda>r. r\<lparr>row_stock_qty := row_stock_qty r + f k\<rparr>) (variants s k))
      = (\<lambda>k. map_option (\<lambda>r. r\<lparr>row_stock_qty := row_stock_qty r + g k\<rparr>) (variants s k))"
  proof
    fix k show "map_option (\<lambda>r. r\<lparr>row_stock_qty := row_stock_qty r + f k\<rparr>) (variants s k)
      = map_option (\<lambda>r. r\<lparr>row_stock_qty := row_stock_qty r + g k\<rparr>) (variants s k)"
      using h [of k] by (cases "variants s k") simp_all
  qed
  then show ?thesis by (simp add: add_stock_def)
qed

lemma add_stock_zero: "add_stock (\<lambda>k. 0) s = s"
  by (simp add: add_stock_def option.map_ident)

lemma get_None_iff: "get_variant_by_id s k = None \<longleftrightarrow> variants s k = None"
  by (simp add: get_variant_by_id_def)

lemma get_variant_by_id_frame [simp]:
  "get_variant_by_id (s\<lparr>documents := D\<rparr>) k = get_variant_by_id s k"
  "get_variant_by_id (s\<lparr>next_doc_id := n\<rparr>) k = get_variant_by_id s k"
  "get_variant_by_id (s\<lparr>next_item_id := m\<rparr>) k = get_variant_by_id s k"
  "get_variant_by_id (repo_delete_document j s) k = get_variant_by_id s k"
  "get_variant_by_id (snd (add_document d s)) k = get_variant_by_id s k"
  by (simp_all add: get_variant_by_id_def repo_delete_document_def add_document_def Let_def)

lemma variants_frame [simp]:
  "variants (add_stock f (s\<lparr>documents := D\<rparr>)) = variants (add_stock f s)"
  "variants (repo_delete_document k s) = variants s"
  "variants (snd (add_document d s)) = variants s"
  by (simp_all add: add_stock_def repo_delete_document_def add_document_def Let_def)

lemma joined_frame [simp]:
  "joined (add_stock f s) r = joined s r"
  "joined (s\<lparr>documents := D\<rparr>) r = joined s r"
  "joined (repo_delete_document k s) r = joined s r"
  "joined (snd (add_document d s)) r = joined s r"
  by (cases "variants s (row_variant_id r)";
      simp add: joined_def add_stock_def repo_delete_document_def add_document_def Let_def)+

lemma get_document_by_id_eq:
  "get_document_by_id s k = map_option (fetched s k) (documents s k)"
  by (simp add: get_document_by_id_def fetched_def map_row_to_document_def
        split: option.splits)

lemma fetched_frame [simp]:
  "fetched (add_stock f s) = fetched s"
  "fetched (s\<lparr>documents := D\<rparr>) = fetched s"
  "fetched (snd (add_document d s)) = fetched s"
proof -
  have j: "joined (add_stock f s) = joined s" "joined (s\<lparr>documents := D\<rparr>) = joined s"
    "joined (snd (add_document d s)) = joined s"
    by (simp_all add: fun_eq_iff)
  show "fetched (add_stock f s) = fetched s"
    "fetched (s\<lparr>documents := D\<rparr>) = fetched s"
    "fetched (snd (add_document d s)) = fetched s"
    by (simp_all add: fetched_def j fun_eq_iff)
qed

lemma get_document_by_id_frame [simp]:
  "get_document_by_id (add_stock f s) k = get_document_by_id s k"
  "get_document_by_id (repo_delete_document k s) k = None"
  by (simp_all add: get_document_by_id_eq repo_delete_document_def)

lemma add_document_simps [simp]:
  "fst (add_document d s) = d\<lparr>id_d := Some (next_doc_id s)\<rparr>"
  "documents (snd (add_document d s)) (next_doc_id s)
     = Some (document_row_of (next_item_id s) d)"
  "get_document_by_id (snd (add_document d s)) (next_doc_id s)
     = Some (fetched s (next_doc_id s) (document_row_of (next_item_id s) d))"
proof -
  show "fst (add_document d s) = d\<lparr>id_d := Some (next_doc_id s)\<rparr>"
    by (simp add: add_document_def Let_def)
  show r: "documents (snd (add_document d s)) (next_doc_id s)
     = Some (document_row_of (next_item_id s) d)"
    by (simp add: add_document_def Let_def document_row_of_def)
  show "get_document_by_id (snd (add_document d s)) (next_doc_id s)
     = Some (fetched s (next_doc_id s) (document_row_of (next_item_id s) d))"
    by (simp add: get_document_by_id_eq r)
qed

lemma update_variant_stock:
  assumes "get_variant_by_id s k = Some v"
  shows "update_variant (v\<lparr>stock_qty := stock_qty v + q\<rparr>) s
       = Inr (add_stock (\<lambda>j. if j = k then q else 0) s)"
proof -
  from assms obtain row where row: "variants s k = Some row" and v: "v = map_row_to_variant k row"
    by (auto simp: get_variant_by_id_def)
  have "(variants s)(k \<mapsto> row\<lparr>row_stock_qty := row_stock_qty row + q\<rparr>)
      = (\<lambda>j. map_option (\<lambda>r. r\<lparr>row_stock_qty := row_stock_qty r + (if j = k then q else 0)\<rparr>) (variants s j))"
  proof
    fix j show "((variants s)(k \<mapsto> row\<lparr>row_stock_qty := row_stock_qty row + q\<rparr>)) j
      = map_option (\<lambda>r. r\<lparr>row_stock_qty := row_stock_qty r + (if j = k then q else 0)\<rparr>) (variants s j)"
      using row by (cases "variants s j") auto
  qed
  then show ?thesis
    using row v by (simp add: update_variant_def map_row_to_variant_def add_stock_def)
qed

lemma qty_sum_simps [simp]:
  "qty_sum k [] = 0"
  "qty_sum k (x # xs) = (if variant_id x = k then quantity x else 0) + qty_sum k xs"
  "qty_sum k (xs @ ys) = qty_sum k xs + qty_sum k ys"
  by (simp_all add: qty_sum_def)

lemma net_impact_simps [simp]:
  "net_impact t [] k = 0"
  "net_impact t (x # xs) k = (if variant_id x = k then rollback_change t x else 0) + net_impact t xs k"
  "net_impact t (xs @ ys) k = net_impact t xs k + net_impact t ys k"
  by (simp_all add: net_impact_def)

lemmas eval_defs = get_variant_by_id_def map_row_to_variant_def update_variant_def
  get_document_by_id_def map_row_to_document_def map_row_to_item_def joined_def
  repo_delete_document_def add_document_def document_row_of_def fetched_def
  display_name_def impacts_get_def rollback_change_def Let_def

subsection \<open>The loops of the three creation operations\<close>

lemma inbound_items_eq:
  "inbound_items xs s = (Inr (), add_stock (\<lambda>k. qty_sum k xs) s)"
proof (induction xs arbitrary: s)
  case Nil
  show ?case by (simp add: add_stock_zero)
next
  case (Cons x xs)
  show ?case
  proof (cases "get_variant_by_id s (variant_id x)")
    case None
    then have "add_stock (\<lambda>k. qty_sum k xs) s = add_stock (\<lambda>k. qty_sum k (x # xs)) s"
      by (intro add_stock_cong) (auto simp: get_None_iff)
    with None Cons.IH show ?thesis by simp
  next
    case (Some v)
    have "(\<lambda>k. (if k = variant_id x then quantity x else 0) + qty_sum k xs)
        = (\<lambda>k. qty_sum k (x # xs))" by auto
    with Some Cons.IH show ?thesis
      by (simp add: update_variant_stock add_stock_add_stock)
  qed
qed

lemma outbound_precheck_first:
  "\<forall>i\<in>set pre. \<not> item_unavailable s i \<Longrightarrow> item_unavailable s item \<Longrightarrow>
   outbound_precheck (pre @ item # post) s = Some (outbound_rejection s item)"
  by (induction pre)
     (auto simp: item_unavailable_def outbound_rejection_def split: option.splits)

lemma adjust_items_append:
  "adjust_items (xs @ ys) s =
     (case adjust_items xs s of (Inl e, s') \<Rightarrow> (Inl e, s') | (Inr u, s') \<Rightarrow> adjust_items ys s')"
  by (induction xs arbitrary: s) (auto split: option.splits sum.splits simp: Let_def)

lemma adjust_items_single:
  "adjust_items [x] (add_stock (\<lambda>k. qty_sum k pre) s) =
     (case get_variant_by_id s (variant_id x) of
        None \<Rightarrow> (Inr (), add_stock (\<lambda>k. qty_sum k (pre @ [x])) s)
      | Some v \<Rightarrow>
          if adjust_rejects s pre x
          then (Inl (BusinessRuleViolation (NegativeAfterAdjust (display_name v))),
                add_stock (\<lambda>k. qty_sum k pre) s)
          else (Inr (), add_stock (\<lambda>k. qty_sum k (pre @ [x])) s))"
proof (cases "get_variant_by_id s (variant_id x)")
  case None
  then have "add_stock (\<lambda>k. qty_sum k pre) s = add_stock (\<lambda>k. qty_sum k (pre @ [x])) s"
    by (intro add_stock_cong) (auto simp: get_None_iff)
  with None show ?thesis by (simp add: get_add_stock)
next
  case (Some v)
  let ?s1 = "add_stock (\<lambda>k. qty_sum k pre) s"
  let ?v1 = "v\<lparr>stock_qty := stock_qty v + qty_sum (variant_id x) pre\<rparr>"
  have g: "get_variant_by_id ?s1 (variant_id x) = Some ?v1"
    using Some by (simp add: get_add_stock)
  have f: "(\<lambda>k. qty_sum k pre + (if k = variant_id x then quantity x else 0))
         = (\<lambda>k. qty_sum k (pre @ [x]))" by auto
  have u: "update_variant (?v1\<lparr>stock_qty := stock_qty ?v1 + quantity x\<rparr>) ?s1
         = Inr (add_stock (\<lambda>k. qty_sum k (pre @ [x])) s)"
    using update_variant_stock [OF g, of "quantity x"] by (simp add: add_stock_add_stock f)
  show ?thesis
    using Some g u by (simp add: adjust_rejects_def display_name_def Let_def)
qed

lemma adjust_items_accepts:
  "(\<forall>n<length xs. \<not> adjust_rejects s (take n xs) (xs ! n)) \<Longrightarrow>
   adjust_items xs s = (Inr (), add_stock (\<lambda>k. qty_sum k xs) s)"
proof (induction xs rule: rev_induct)
  case Nil
  show ?case by (simp add: add_stock_zero)
next
  case (snoc x xs)
  have "\<forall>n<length xs. \<not> adjust_rejects s (take n xs) (xs ! n)"
  proof (intro allI impI)
    fix n assume n: "n < length xs"
    with snoc.prems have "\<not> adjust_rejects s (take n (xs @ [x])) ((xs @ [x]) ! n)" by simp
    with n show "\<not> adjust_rejects s (take n xs) (xs ! n)" by (simp add: nth_append)
  qed
  then have ih: "adjust_items xs s = (Inr (), add_stock (\<lambda>k. qty_sum k xs) s)"
    by (rule snoc.IH)
  from snoc.prems have last: "\<not> adjust_rejects s xs x"
    by (auto dest: spec [of _ "length xs"])
  show ?case
    using last
    by (simp add: adjust_items_append ih adjust_items_single del: adjust_items.simps
          split: option.splits)
qed

lemma adjust_items_rejects:
  assumes "\<forall>n<length pre. \<not> adjust_rejects s (take n pre) (pre ! n)"
    and "adjust_rejects s pre item"
    and "get_variant_by_id s (variant_id item) = Some v"
  shows "adjust_items (pre @ item # post) s =
     (Inl (BusinessRuleViolation (NegativeAfterAdjust (display_name v))),
      add_stock (\<lambda>k. qty_sum k pre) s)"
proof -
  let ?s1 = "add_stock (\<lambda>k. qty_sum k pre) s"
  let ?r = "(Inl (BusinessRuleViolation (NegativeAfterAdjust (display_name v))), ?s1)"
  have 1: "adjust_items pre s = (Inr (), ?s1)"
    by (rule adjust_items_accepts [OF assms(1)])
  have 2: "adjust_items [item] ?s1 = ?r"
    using assms(2,3) by (simp add: adjust_items_single del: adjust_items.simps)
  have 3: "adjust_items ([item] @ post) ?s1 = ?r"
    by (subst adjust_items_append) (simp only: 2 prod.case sum.case)
  have "adjust_items (pre @ ([item] @ post)) s = ?r"
    by (subst adjust_items_append) (simp only: 1 3 prod.case sum.case)
  then show ?thesis by simp
qed

lemma adjust_rejects_frame [simp]:
  "adjust_rejects (snd (add_document d s)) pre item = adjust_rejects s pre item"
  by (simp add: adjust_rejects_def)

lemma adjust_items_add_stock:
  "\<exists>g. snd (adjust_items xs s) = add_stock g s"
proof (induction xs arbitrary: s)
  case Nil
  have "snd (adjust_items [] s) = add_stock (\<lambda>k. 0) s" by (simp add: add_stock_zero)
  then show ?case by blast
next
  case (Cons x xs)
  show ?case
  proof (cases "get_variant_by_id s (variant_id x)")
    case None
    with Cons.IH [of s] show ?thesis by simp
  next
    case (Some v)
    show ?thesis
    proof (cases "stock_qty v + quantity x < 0")
      case True
      with Some have "snd (adjust_items (x # xs) s) = add_stock (\<lambda>k. 0) s"
        by (simp add: Let_def add_stock_zero)
      then show ?thesis by blast
    next
      case False
      let ?s1 = "add_stock (\<lambda>j. if j = variant_id x then quantity x else 0) s"
      from Cons.IH [of ?s1] obtain g where "snd (adjust_items xs ?s1) = add_stock g ?s1"
        by blast
      with Some False have "snd (adjust_items (x # xs) s) =
          add_stock (\<lambda>k. (if k = variant_id x then quantity x else 0) + g k) s"
        by (simp add: Let_def update_variant_stock [OF Some] add_stock_add_stock)
      then show ?thesis by blast
    qed
  qed
qed

lemma adjust_items_variants:
  "variants s = variants t \<Longrightarrow>
   fst (adjust_items xs s) = fst (adjust_items xs t)
   \<and> variants (snd (adjust_items xs s)) = variants (snd (adjust_items xs t))"
proof (induction xs arbitrary: s t)
  case Nil
  then show ?case by simp
next
  case (Cons x xs)
  from Cons.prems have g: "get_variant_by_id t (variant_id x) = get_variant_by_id s (variant_id x)"
    by (simp add: get_variant_by_id_def)
  show ?case
  proof (cases "get_variant_by_id s (variant_id x)")
    case None
    with g Cons.IH [OF Cons.prems] show ?thesis by simp
  next
    case (Some v)
    with g have Some': "get_variant_by_id t (variant_id x) = Some v" by simp
    show ?thesis
    proof (cases "stock_qty v + quantity x < 0")
      case True
      with Some Some' Cons.prems show ?thesis by (simp add: Let_def)
    next
      case False
      let ?f = "\<lambda>j. if j = variant_id x then quantity x else 0"
      have "variants (add_stock ?f s) = variants (add_stock ?f t)"
        using Cons.prems by (simp add: add_stock_def)
      from Cons.IH [OF this] Some Some' False show ?thesis
        by (simp add: Let_def update_variant_stock [OF Some] update_variant_stock [OF Some'])
    qed
  qed
qed

lemma adjust_items_skip:
  assumes "get_variant_by_id s (variant_id item) = None"
  shows "adjust_items (pre @ item # post) s = adjust_items (pre @ post) s"
proof (cases "adjust_items pre s")
  case (Pair r s1)
  from adjust_items_add_stock [of pre s] Pair obtain g where "s1 = add_stock g s" by auto
  with assms have "get_variant_by_id s1 (variant_id item) = None"
    by (simp add: get_add_stock)
  then have "adjust_items (item # post) s1 = adjust_items post s1" by simp
  then show ?thesis
    by (simp only: adjust_items_append [of pre] Pair prod.case split: sum.splits)
qed

subsection \<open>The three phases of delete_document\<close>

lemma impacts_get_update:
  "impacts_get (AList.update k c al) j = (if j = k then c else impacts_get al j)"
  by (simp add: impacts_get_def update_conv')

lemma impacts_get_compute:
  "impacts_get (compute_impacts t xs acc) k = impacts_get acc k + net_impact t xs k"
  by (induction xs arbitrary: acc) (simp_all add: impacts_get_update)

lemma keys_compute:
  "fst ` set (compute_impacts t xs acc) = fst ` set acc \<union> variant_id ` set xs"
  by (induction xs arbitrary: acc) (auto simp: dom_update)

lemma distinct_compute:
  "distinct (map fst acc) \<Longrightarrow> distinct (map fst (compute_impacts t xs acc))"
  by (induction xs arbitrary: acc) (simp_all add: distinct_update)

lemma impacts_get_in:
  "distinct (map fst al) \<Longrightarrow> (k, c) \<in> set al \<Longrightarrow> impacts_get al k = c"
  by (simp add: impacts_get_def)

lemma impacts_get_notin:
  "k \<notin> fst ` set al \<Longrightarrow> impacts_get al k = 0"
proof -
  assume "k \<notin> fst ` set al"
  then have "map_of al k = None" by (simp add: map_of_eq_None_iff)
  then show ?thesis by (simp add: impacts_get_def)
qed

lemma impacts_get_compute_Nil:
  "impacts_get (compute_impacts t xs []) = net_impact t xs"
  by (simp add: fun_eq_iff impacts_get_compute) (simp add: impacts_get_def)

lemma impacts_mem:
  "(k, c) \<in> set (compute_impacts t xs []) \<longleftrightarrow>
     k \<in> variant_id ` set xs \<and> c = net_impact t xs k"
proof -
  let ?al = "compute_impacts t xs []"
  have d: "distinct (map fst ?al)" by (rule distinct_compute) simp
  have keys: "fst ` set ?al = variant_id ` set xs" by (simp add: keys_compute)
  show ?thesis
  proof
    assume m: "(k, c) \<in> set ?al"
    then have "k \<in> fst ` set ?al" by force
    moreover from impacts_get_in [OF d m] have "c = net_impact t xs k"
      by (simp add: impacts_get_compute_Nil)
    ultimately show "k \<in> variant_id ` set xs \<and> c = net_impact t xs k"
      using keys by simp
  next
    assume r: "k \<in> variant_id ` set xs \<and> c = net_impact t xs k"
    with keys have "k \<in> fst ` set ?al" by simp
    then obtain c' where m: "(k, c') \<in> set ?al" by force
    from impacts_get_in [OF d m] have "c' = net_impact t xs k"
      by (simp add: impacts_get_compute_Nil)
    with m r show "(k, c) \<in> set ?al" by simp
  qed
qed

lemma strict_check_None:
  "strict_check al s = None \<longleftrightarrow>
     (\<forall>(k, c) \<in> set al. c < 0 \<longrightarrow>
        (\<forall>v. get_variant_by_id s k = Some v \<longrightarrow> 0 \<le> stock_qty v + c))"
  by (induction al s rule: strict_check.induct)
     (auto simp: Let_def split: option.splits)

lemma strict_check_Some:
  "strict_check al s = Some e \<Longrightarrow>
     \<exists>k c v. (k, c) \<in> set al \<and> c < 0 \<and> get_variant_by_id s k = Some v
        \<and> stock_qty v + c < 0
        \<and> e = BusinessRuleViolation (RollbackShort (display_name v) (stock_qty v) \<bar>c\<bar>)"
proof (induction al)
  case Nil
  then show ?case by simp
next
  case (Cons p al)
  obtain k c where p: "p = (k, c)" by (cases p)
  show ?case
  proof (cases "c < 0 \<and> (\<exists>v. get_variant_by_id s k = Some v \<and> stock_qty v + c < 0)")
    case True
    then obtain v where v: "get_variant_by_id s k = Some v" "stock_qty v + c < 0" "c < 0"
      by auto
    with Cons.prems
    have "e = BusinessRuleViolation (RollbackShort (display_name v) (stock_qty v) \<bar>c\<bar>)"
      by (simp add: p Let_def)
    moreover have "(k, c) \<in> set (p # al)" by (simp add: p)
    ultimately show ?thesis using v by blast
  next
    case False
    then have "strict_check (p # al) s = strict_check al s"
      by (auto simp: p Let_def split: option.splits)
    with Cons.prems have "strict_check al s = Some e" by simp
    from Cons.IH [OF this] obtain k' c' v' where
      "(k', c') \<in> set al" "c' < 0" "get_variant_by_id s k' = Some v'" "stock_qty v' + c' < 0"
      "e = BusinessRuleViolation (RollbackShort (display_name v') (stock_qty v') \<bar>c'\<bar>)"
      by blast
    moreover from this have "(k', c') \<in> set (p # al)" by simp
    ultimately show ?thesis by blast
  qed
qed

lemma apply_rollback_eq:
  "distinct (map fst al) \<Longrightarrow>
   apply_rollback al s = (Inr (), add_stock (impacts_get al) s)"
proof (induction al arbitrary: s)
  case Nil
  have "impacts_get [] = (\<lambda>k. 0)" by (simp add: impacts_get_def fun_eq_iff)
  then show ?case by (simp add: add_stock_zero)
next
  case (Cons p al)
  obtain k c where p: "p = (k, c)" by (cases p)
  from Cons.prems p have k: "k \<notin> fst ` set al" and d: "distinct (map fst al)" by auto
  have ih: "\<And>s. apply_rollback al s = (Inr (), add_stock (impacts_get al) s)"
    using Cons.IH d by simp
  have f: "impacts_get ((k, c) # al) = (\<lambda>j. (if j = k then c else 0) + impacts_get al j)"
    using impacts_get_notin [OF k] by (auto simp: impacts_get_def fun_eq_iff)
  show ?case
  proof (cases "c = 0 \<or> get_variant_by_id s k = None")
    case True
    have "add_stock (impacts_get al) s = add_stock (impacts_get ((k, c) # al)) s"
      using True by (intro add_stock_cong) (auto simp: f get_None_iff)
    with True show ?thesis by (auto simp: p ih)
  next
    case False
    then obtain v where v: "get_variant_by_id s k = Some v" by auto
    show ?thesis
      using False v by (simp add: p ih update_variant_stock [OF v] add_stock_add_stock f)
  qed
qed

lemma delete_document_eq:
  assumes "get_document_by_id s doc_id = Some doc"
  shows "delete_document doc_id s =
     (case strict_check (compute_impacts (doc_type doc) (items doc) []) s of
        Some e \<Rightarrow> (Inl e, s)
      | None \<Rightarrow> (Inr (), repo_delete_document doc_id
                   (add_stock (net_impact (doc_type doc) (items doc)) s)))"
proof -
  have "distinct (map fst (compute_impacts (doc_type doc) (items doc) []))"
    by (rule distinct_compute) simp
  then show ?thesis
    using assms
    by (simp add: delete_document_def apply_rollback_eq impacts_get_compute_Nil
          split: option.splits)
qed

lemma ball_impacts:
  "(\<forall>p\<in>set (compute_impacts t xs []). P (fst p) (snd p)) \<longleftrightarrow>
     (\<forall>k\<in>variant_id ` set xs. P k (net_impact t xs k))"
proof
  assume h: "\<forall>p\<in>set (compute_impacts t xs []). P (fst p) (snd p)"
  show "\<forall>k\<in>variant_id ` set xs. P k (net_impact t xs k)"
  proof
    fix k assume "k \<in> variant_id ` set xs"
    then have "(k, net_impact t xs k) \<in> set (compute_impacts t xs [])"
      by (simp add: impacts_mem)
    with h show "P k (net_impact t xs k)" by fastforce
  qed
next
  assume h: "\<forall>k\<in>variant_id ` set xs. P k (net_impact t xs k)"
  show "\<forall>p\<in>set (compute_impacts t xs []). P (fst p) (snd p)"
  proof
    fix p assume "p \<in> set (compute_impacts t xs [])"
    then have "(fst p, snd p) \<in> set (compute_impacts t xs [])" by simp
    then have "fst p \<in> variant_id ` set xs" "snd p = net_impact t xs (fst p)"
      by (simp_all only: impacts_mem)
    with h show "P (fst p) (snd p)" by auto
  qed
qed

lemma strict_check_blocked:
  "strict_check (compute_impacts (doc_type doc) (items doc) []) s = None \<longleftrightarrow>
     (\<forall>k\<in>variant_id ` set (items doc). \<not> rollback_blocked s doc k)"
proof -
  have "strict_check (compute_impacts (doc_type doc) (items doc) []) s = None \<longleftrightarrow>
     (\<forall>p\<in>set (compute_impacts (doc_type doc) (items doc) []).
         snd p < 0 \<longrightarrow>
          (\<forall>v. get_variant_by_id s (fst p) = Some v \<longrightarrow> 0 \<le> stock_qty v + snd p))"
    by (simp add: strict_check_None case_prod_beta)
  also have "\<dots> \<longleftrightarrow> (\<forall>k\<in>variant_id ` set (items doc).
       net_impact (doc_type doc) (items doc) k < 0 \<longrightarrow>
          (\<forall>v. get_variant_by_id s k = Some v \<longrightarrow>
             0 \<le> stock_qty v + net_impact (doc_type doc) (items doc) k))"
    by (rule ball_impacts)
  also have "\<dots> \<longleftrightarrow> (\<forall>k\<in>variant_id ` set (items doc). \<not> rollback_blocked s doc k)"
    by (auto simp: rollback_blocked_def not_less split: option.splits)
  finally show ?thesis .
qed

lemma strict_check_documents [simp]:
  "strict_check al (s\<lparr>documents := D\<rparr>) = strict_check al s"
  by (induction al) (auto simp: Let_def split: option.splits)

lemma net_impact_INBOUND: "net_impact ''INBOUND'' xs k = - qty_sum k xs"
  by (induction xs) (simp_all add: rollback_change_def)

subsection \<open>What a read-back returns\<close>

lemma joined_cong:
  "row_variant_id r = row_variant_id r' \<Longrightarrow> joined s r = joined s r'"
  by (simp add: joined_def)



lemma item_rows_all_joined:
  "\<forall>item\<in>set xs. joined s \<lparr>row_id_i = 0, row_variant_id = variant_id item, row_quantity = 0\<rparr>
   \<Longrightarrow> filter (joined s) (item_rows n xs) = item_rows n xs"
proof (induction xs arbitrary: n)
  case Nil
  show ?case by simp
next
  case (Cons x xs)
  have "joined s \<lparr>row_id_i = n, row_variant_id = variant_id x, row_quantity = quantity x\<rparr>
      = joined s \<lparr>row_id_i = 0, row_variant_id = variant_id x, row_quantity = 0\<rparr>"
    by (rule joined_cong) simp
  with Cons show ?case by simp
qed

lemma net_impact_item_rows:
  "net_impact t (map map_row_to_item (item_rows n xs)) k = net_impact t xs k"
  by (induction xs arbitrary: n) (simp_all add: map_row_to_item_def rollback_change_def)

lemma variant_ids_item_rows:
  "variant_id ` set (map map_row_to_item (item_rows n xs)) = variant_id ` set xs"
  by (induction xs arbitrary: n) (simp_all add: map_row_to_item_def)

subsection \<open>The stock invariant\<close>

lemma stock_nonneg_add_stock:
  "stock_nonneg (add_stock f s) \<longleftrightarrow>
     (\<forall>k v. get_variant_by_id s k = Some v \<longrightarrow> 0 \<le> stock_qty v + f k)"
proof
  assume h: "stock_nonneg (add_stock f s)"
  show "\<forall>k v. get_variant_by_id s k = Some v \<longrightarrow> 0 \<le> stock_qty v + f k"
  proof (intro allI impI)
    fix k v assume "get_variant_by_id s k = Some v"
    then have "get_variant_by_id (add_stock f s) k = Some (v\<lparr>stock_qty := stock_qty v + f k\<rparr>)"
      by (simp add: get_add_stock)
    with h have "0 \<le> stock_qty (v\<lparr>stock_qty := stock_qty v + f k\<rparr>)"
      unfolding stock_nonneg_def by blast
    then show "0 \<le> stock_qty v + f k" by simp
  qed
next
  assume h: "\<forall>k v. get_variant_by_id s k = Some v \<longrightarrow> 0 \<le> stock_qty v + f k"
  show "stock_nonneg (add_stock f s)"
    unfolding stock_nonneg_def
  proof (intro allI impI)
    fix k v' assume "get_variant_by_id (add_stock f s) k = Some v'"
    then obtain v where "get_variant_by_id s k = Some v"
      and "v' = v\<lparr>stock_qty := stock_qty v + f k\<rparr>"
      by (auto simp: get_add_stock)
    with h show "0 \<le> stock_qty v'" by simp
  qed
qed

lemma stock_nonneg_frame [simp]:
  "stock_nonneg (s\<lparr>documents := D\<rparr>) = stock_nonneg s"
  "stock_nonneg (repo_delete_document k s) = stock_nonneg s"
  "stock_nonneg (snd (add_document d s)) = stock_nonneg s"
  by (simp_all add: stock_nonneg_def)

lemma qty_sum_nonneg: "\<forall>i\<in>set xs. 0 \<le> quantity i \<Longrightarrow> 0 \<le> qty_sum k xs"
  by (induction xs) auto

lemma qty_sum_notin: "k \<notin> variant_id ` set xs \<Longrightarrow> qty_sum k xs = 0"
  by (induction xs) auto

lemma net_impact_notin: "k \<notin> variant_id ` set xs \<Longrightarrow> net_impact t xs k = 0"
  by (induction xs) auto

lemma qty_sum_distinct:
  "distinct (map variant_id xs) \<Longrightarrow> i \<in> set xs \<Longrightarrow> qty_sum (variant_id i) xs = quantity i"
  by (induction xs) (auto simp: qty_sum_notin)

lemma outbound_precheck_None:
  "outbound_precheck xs s = None \<longleftrightarrow> (\<forall>i\<in>set xs. \<not> item_unavailable s i)"
  by (induction xs) (auto simp: item_unavailable_def split: option.splits)

lemma outbound_items_eq:
  "\<forall>i\<in>set xs. get_variant_by_id s (variant_id i) \<noteq> None \<Longrightarrow>
   outbound_items xs s = (Inr (), add_stock (\<lambda>k. - qty_sum k xs) s)"
proof (induction xs arbitrary: s)
  case Nil
  show ?case by (simp add: add_stock_zero)
next
  case (Cons x xs)
  then obtain v where v: "get_variant_by_id s (variant_id x) = Some v" by auto
  let ?s1 = "add_stock (\<lambda>j. if j = variant_id x then - quantity x else 0) s"
  have u: "update_variant (v\<lparr>stock_qty := stock_qty v - quantity x\<rparr>) s = Inr ?s1"
    using update_variant_stock [OF v, of "- quantity x"] by simp
  have "\<forall>i\<in>set xs. get_variant_by_id ?s1 (variant_id i) \<noteq> None"
    using Cons.prems by (simp add: get_add_stock)
  then have "outbound_items xs ?s1 = (Inr (), add_stock (\<lambda>k. - qty_sum k xs) ?s1)"
    by (rule Cons.IH)
  moreover have "(\<lambda>k. (if k = variant_id x then - quantity x else 0) + - qty_sum k xs)
      = (\<lambda>k. - qty_sum k (x # xs))" by auto
  ultimately show ?case using v u by (simp add: add_stock_add_stock)
qed

lemma adjust_items_keeps_stock_nonneg:
  "stock_nonneg s \<Longrightarrow> stock_nonneg (snd (adjust_items xs s))"
proof (induction xs arbitrary: s)
  case Nil
  then show ?case by simp
next
  case (Cons x xs)
  show ?case
  proof (cases "get_variant_by_id s (variant_id x)")
    case None
    with Cons show ?thesis by simp
  next
    case (Some v)
    show ?thesis
    proof (cases "stock_qty v + quantity x < 0")
      case True
      with Some Cons.prems show ?thesis by (simp add: Let_def)
    next
      case False
      let ?s1 = "add_stock (\<lambda>j. if j = variant_id x then quantity x else 0) s"
      have "0 \<le> stock_qty u + (if k = variant_id x then quantity x else 0)"
        if "get_variant_by_id s k = Some u" for k u
        using that Cons.prems Some False by (auto simp: stock_nonneg_def)
      then have "stock_nonneg ?s1" by (simp only: stock_nonneg_add_stock) blast
      then have "stock_nonneg (snd (adjust_items xs ?s1))" by (rule Cons.IH)
      with Some False show ?thesis
        by (simp add: Let_def update_variant_stock [OF Some])
    qed
  qed
qed

section \<open>Properties of the inventory service\<close>

subsection \<open>Rejection of a document of the wrong type\<close>

text \<open>
  Claim C8. Each of the three creation operations compares the document's type with its
  own first. A document of another type is refused with the store returned as it was:
  no document is persisted and no stock has changed.
\<close>

theorem type_mismatch_rejected:
  "(doc_type d \<noteq> ''INBOUND'' \<longrightarrow>
      create_inbound_order d s = (Inl (BusinessRuleViolation (TypeMustBe ''INBOUND'')), s))
   \<and> (doc_type d \<noteq> ''OUTBOUND'' \<longrightarrow>
      create_outbound_order d s = (Inl (BusinessRuleViolation (TypeMustBe ''OUTBOUND'')), s))
   \<and> (doc_type d \<noteq> ''ADJUST'' \<longrightarrow>
      create_adjustment_order d s = (Inl (BusinessRuleViolation (TypeMustBe ''ADJUST'')), s))"
  by (simp add: create_inbound_order_def create_outbound_order_def
        create_adjustment_order_def)

text \<open>
  An OUTBOUND document handed to the inbound operation, an ADJUST document handed to
  the outbound one, and a type in the wrong case (the comparison is case-sensitive).
\<close>

theorem type_mismatch_rejected_witness:
  "doc_type (slip ''OUTBOUND'' [line 1 5]) \<noteq> ''INBOUND''
   \<and> create_inbound_order (slip ''OUTBOUND'' [line 1 5]) (shop 10)
       = (Inl (BusinessRuleViolation (TypeMustBe ''INBOUND'')), shop 10)
   \<and> doc_type (slip ''ADJUST'' [line 1 5]) \<noteq> ''OUTBOUND''
   \<and> create_outbound_order (slip ''ADJUST'' [line 1 5]) (shop 10)
       = (Inl (BusinessRuleViolation (TypeMustBe ''OUTBOUND'')), shop 10)
   \<and> doc_type (slip ''adjust'' [line 1 5]) \<noteq> ''ADJUST''
   \<and> create_adjustment_order (slip ''adjust'' [line 1 5]) (shop 10)
       = (Inl (BusinessRuleViolation (TypeMustBe ''ADJUST'')), shop 10)"
  using type_mismatch_rejected [of "slip ''OUTBOUND'' [line 1 5]" "shop 10"]
    type_mismatch_rejected [of "slip ''ADJUST'' [line 1 5]" "shop 10"]
    type_mismatch_rejected [of "slip ''adjust'' [line 1 5]" "shop 10"]
  by simp

subsection \<open>Inbound orders\<close>

text \<open>
  Claim C7. \<open>create_inbound_order\<close> on an INBOUND document returns the document it
  persisted, now carrying its id. The header and one row for every item, also for an item
  on a missing variant, are in the document table; a read-back under the new id gives the
  header with the items whose variant (and product) exist. Every variant that exists
  ends with its former stock plus the sum of the quantities of the items that reference
  it, and an item on a variant that does not exist changes nothing and does not stop the
  operation.
\<close>

theorem create_inbound_order_increases:
  assumes "doc_type d = ''INBOUND''"
  shows "\<exists>s'. create_inbound_order d s = (Inr (d\<lparr>id_d := Some (next_doc_id s)\<rparr>), s')
     \<and> documents s' (next_doc_id s) = Some (document_row_of (next_item_id s) d)
     \<and> get_document_by_id s' (next_doc_id s)
         = Some (fetched s (next_doc_id s) (document_row_of (next_item_id s) d))
     \<and> (\<forall>k. get_variant_by_id s' k =
            map_option (\<lambda>v. v\<lparr>stock_qty := stock_qty v + qty_sum k (items d)\<rparr>)
              (get_variant_by_id s k))"
  using assms
  by (simp add: create_inbound_order_def case_prod_unfold inbound_items_eq get_add_stock)

text \<open>
  Stock 10, an item of 5 on the variant, and an item on the missing variant 9: both rows
  are stored, the read-back gives the first item only, and the stock is 15.
\<close>

theorem create_inbound_order_increases_witness:
  "doc_type (slip ''INBOUND'' [line 1 5, line 9 2]) = ''INBOUND''
   \<and> (\<exists>s'. create_inbound_order (slip ''INBOUND'' [line 1 5, line 9 2]) (shop 10)
            = (Inr ((slip ''INBOUND'' [line 1 5, line 9 2])\<lparr>id_d := Some 1\<rparr>), s')
        \<and> documents s' 1 = Some (sheet ''INBOUND'' [entry 1 1 5, entry 2 9 2])
        \<and> get_document_by_id s' 1 = Some (filed ''INBOUND'' [got 1 1 5])
        \<and> map_option stock_qty (get_variant_by_id s' 1) = Some 15
        \<and> get_variant_by_id s' 9 = None)"
proof -
  let ?D = "slip ''INBOUND'' [line 1 5, line 9 2]"
  have t: "doc_type ?D = ''INBOUND''" by simp
  from create_inbound_order_increases [OF t, of "shop 10"]
  obtain s' where r: "create_inbound_order ?D (shop 10) = (Inr (?D\<lparr>id_d := Some 1\<rparr>), s')"
    and p: "documents s' 1 = Some (document_row_of 1 ?D)"
    and f: "get_document_by_id s' 1 = Some (fetched (shop 10) 1 (document_row_of 1 ?D))"
    and q: "\<And>k. get_variant_by_id s' k =
            map_option (\<lambda>v. v\<lparr>stock_qty := stock_qty v + qty_sum k (items ?D)\<rparr>)
              (get_variant_by_id (shop 10) k)"
    by auto
  have p': "documents s' 1 = Some (sheet ''INBOUND'' [entry 1 1 5, entry 2 9 2])"
    using p by (simp add: document_row_of_def)
  have f': "get_document_by_id s' 1 = Some (filed ''INBOUND'' [got 1 1 5])"
    using f by (simp add: document_row_of_def fetched_def joined_def map_row_to_item_def)
  have "map_option stock_qty (get_variant_by_id s' 1) = Some 15"
    by (simp add: q) (simp add: get_variant_by_id_def map_row_to_variant_def)
  moreover have "get_variant_by_id s' 9 = None"
    by (simp add: q) (simp add: get_variant_by_id_def)
  ultimately show ?thesis using r p' f' by auto
qed

subsection \<open>Outbound orders\<close>

text \<open>
  Claim C2. An OUTBOUND document with an item whose variant is missing or whose quantity
  exceeds the variant's stock is refused: the first such item decides the error
  (\<open>EntityNotFoundError\<close> for a missing variant, \<open>OutOfStockError\<close> for a short
  one), and the store is returned as it was, so no stock has changed and no document
  was persisted.
\<close>

theorem create_outbound_order_atomic:
  assumes "doc_type d = ''OUTBOUND''"
    and "\<exists>item\<in>set (items d). item_unavailable s item"
  shows "\<exists>pre item post. items d = pre @ item # post
     \<and> (\<forall>i\<in>set pre. \<not> item_unavailable s i) \<and> item_unavailable s item
     \<and> create_outbound_order d s = (Inl (outbound_rejection s item), s)"
proof -
  from split_list_first_prop [OF assms(2)]
  obtain pre item post where sp: "items d = pre @ item # post"
    "item_unavailable s item" "\<forall>i\<in>set pre. \<not> item_unavailable s i"
    by blast
  from outbound_precheck_first [OF sp(3) sp(2)]
  have "outbound_precheck (items d) s = Some (outbound_rejection s item)"
    by (simp add: sp(1))
  then have "create_outbound_order d s = (Inl (outbound_rejection s item), s)"
    using assms(1) by (simp add: create_outbound_order_def)
  with sp show ?thesis by blast
qed

text \<open>
  Stock 10, an item of 4 that could be served and an item asking for 12: the second item
  is refused and nothing of the first has been applied.
\<close>

theorem create_outbound_order_atomic_witness:
  "doc_type (slip ''OUTBOUND'' [line 1 4, line 1 12]) = ''OUTBOUND''
   \<and> (\<exists>item\<in>set (items (slip ''OUTBOUND'' [line 1 4, line 1 12])). item_unavailable (shop 10) item)
   \<and> create_outbound_order (slip ''OUTBOUND'' [line 1 4, line 1 12]) (shop 10)
       = (Inl (OutOfStockError (StockShort ''42 / red'' 10 12)), shop 10)"
  using create_outbound_order_atomic [of "slip ''OUTBOUND'' [line 1 4, line 1 12]" "shop 10"]
  by (auto simp: item_unavailable_def outbound_rejection_def get_variant_by_id_def
        map_row_to_variant_def display_name_def Cons_eq_append_conv)

text \<open>
  Claim C1. The stock of a variant is meant never to be negative, also after an OUTBOUND
  document with several items on one variant. The pre-check of
  \<open>create_outbound_order\<close> compares every item with the stock on its own, where
  \<open>delete_document\<close> sums the items of a variant first. With stock 5 and two items
  of 3 on the same variant both comparisons pass, the document is accepted, and the
  variant is left with stock \<open>-1\<close>.
\<close>

theorem create_outbound_order_same_variant_twice:
  "map_option stock_qty (get_variant_by_id (shop 5) 1) = Some 5
   \<and> outbound_precheck [line 1 3, line 1 3] (shop 5) = None
   \<and> fst (create_outbound_order (slip ''OUTBOUND'' [line 1 3, line 1 3]) (shop 5))
       = Inr ((slip ''OUTBOUND'' [line 1 3, line 1 3])\<lparr>id_d := Some 1\<rparr>)
   \<and> map_option stock_qty (get_variant_by_id
         (snd (create_outbound_order (slip ''OUTBOUND'' [line 1 3, line 1 3]) (shop 5))) 1)
       = Some (- 1)"
  by (simp add: create_outbound_order_def add_document_def Let_def get_variant_by_id_def
        map_row_to_variant_def update_variant_def)

subsection \<open>Adjustment orders\<close>

text \<open>
  Claim C9. \<open>create_adjustment_order\<close> on an ADJUST document persists the document
  first and then takes the items in order. When the first rejected item comes after the
  items \<open>pre\<close>, the operation fails with \<open>BusinessRuleViolation\<close> naming that item's
  variant; the header and the item rows stay in the document table, a read-back gives
  the document, and every variant keeps the deltas of the items of \<open>pre\<close>. When no
  item is rejected, the persisted document is returned and every variant has received
  the deltas of all items.
\<close>

theorem create_adjustment_order_per_item:
  assumes "doc_type d = ''ADJUST''"
  shows "(items d = pre @ item # post
          \<and> (\<forall>n<length pre. \<not> adjust_rejects s (take n pre) (pre ! n))
          \<and> adjust_rejects s pre item
          \<and> get_variant_by_id s (variant_id item) = Some v \<longrightarrow>
          (\<exists>s'. create_adjustment_order d s =
                   (Inl (BusinessRuleViolation (NegativeAfterAdjust (display_name v))), s')
     \<and> documents s' (next_doc_id s) = Some (document_row_of (next_item_id s) d)
     \<and> get_document_by_id s' (next_doc_id s)
         = Some (fetched s (next_doc_id s) (document_row_of (next_item_id s) d))
             \<and> (\<forall>k. get_variant_by_id s' k =
                   map_option (\<lambda>u. u\<lparr>stock_qty := stock_qty u + qty_sum k pre\<rparr>)
                     (get_variant_by_id s k))))
       \<and> ((\<forall>n<length (items d). \<not> adjust_rejects s (take n (items d)) (items d ! n)) \<longrightarrow>
          (\<exists>s'. create_adjustment_order d s = (Inr (d\<lparr>id_d := Some (next_doc_id s)\<rparr>), s')
     \<and> documents s' (next_doc_id s) = Some (document_row_of (next_item_id s) d)
     \<and> get_document_by_id s' (next_doc_id s)
         = Some (fetched s (next_doc_id s) (document_row_of (next_item_id s) d))
             \<and> (\<forall>k. get_variant_by_id s' k =
                   map_option (\<lambda>u. u\<lparr>stock_qty := stock_qty u + qty_sum k (items d)\<rparr>)
                     (get_variant_by_id s k))))"
proof (intro conjI impI)
  let ?s0 = "snd (add_document d s)"
  have c: "create_adjustment_order d s =
     (case adjust_items (items d) ?s0 of
        (Inl e, s2) \<Rightarrow> (Inl e, s2)
      | (Inr u, s2) \<Rightarrow> (Inr (d\<lparr>id_d := Some (next_doc_id s)\<rparr>), s2))"
    using assms by (simp add: create_adjustment_order_def case_prod_unfold split: sum.splits)
  {
    assume h: "items d = pre @ item # post
          \<and> (\<forall>n<length pre. \<not> adjust_rejects s (take n pre) (pre ! n))
          \<and> adjust_rejects s pre item
          \<and> get_variant_by_id s (variant_id item) = Some v"
    have "adjust_items (pre @ item # post) ?s0 =
       (Inl (BusinessRuleViolation (NegativeAfterAdjust (display_name v))),
        add_stock (\<lambda>k. qty_sum k pre) ?s0)"
      using h by (intro adjust_items_rejects) simp_all
    then show "\<exists>s'. create_adjustment_order d s =
                   (Inl (BusinessRuleViolation (NegativeAfterAdjust (display_name v))), s')
     \<and> documents s' (next_doc_id s) = Some (document_row_of (next_item_id s) d)
     \<and> get_document_by_id s' (next_doc_id s)
         = Some (fetched s (next_doc_id s) (document_row_of (next_item_id s) d))
             \<and> (\<forall>k. get_variant_by_id s' k =
                   map_option (\<lambda>u. u\<lparr>stock_qty := stock_qty u + qty_sum k pre\<rparr>)
                     (get_variant_by_id s k))"
      using h by (simp add: c get_add_stock)
  }
  {
    assume h: "\<forall>n<length (items d). \<not> adjust_rejects s (take n (items d)) (items d ! n)"
    have "adjust_items (items d) ?s0 = (Inr (), add_stock (\<lambda>k. qty_sum k (items d)) ?s0)"
      using h by (intro adjust_items_accepts) simp
    then show "\<exists>s'. create_adjustment_order d s = (Inr (d\<lparr>id_d := Some (next_doc_id s)\<rparr>), s')
     \<and> documents s' (next_doc_id s) = Some (document_row_of (next_item_id s) d)
     \<and> get_document_by_id s' (next_doc_id s)
         = Some (fetched s (next_doc_id s) (document_row_of (next_item_id s) d))
             \<and> (\<forall>k. get_variant_by_id s' k =
                   map_option (\<lambda>u. u\<lparr>stock_qty := stock_qty u + qty_sum k (items d)\<rparr>)
                     (get_variant_by_id s k))"
      by (simp add: c get_add_stock)
  }
qed

text \<open>
  Stock 10 and the deltas \<open>-4\<close>, \<open>-8\<close>, \<open>3\<close>: the second item is rejected, the
  three item rows are stored all the same, and the stock stays at 6. Stock 10 and the
  delta \<open>-2\<close>: the stock becomes 8.
\<close>

theorem create_adjustment_order_per_item_witness:
  "doc_type (slip ''ADJUST'' [line 1 (- 4), line 1 (- 8), line 1 3]) = ''ADJUST''
   \<and> items (slip ''ADJUST'' [line 1 (- 4), line 1 (- 8), line 1 3])
       = [line 1 (- 4)] @ line 1 (- 8) # [line 1 3]
   \<and> \<not> adjust_rejects (shop 10) [] (line 1 (- 4))
   \<and> adjust_rejects (shop 10) [line 1 (- 4)] (line 1 (- 8))
   \<and> get_variant_by_id (shop 10) 1 = Some (map_row_to_variant 1 (shoe_row 10))
   \<and> (\<exists>s'. create_adjustment_order (slip ''ADJUST'' [line 1 (- 4), line 1 (- 8), line 1 3])
               (shop 10)
             = (Inl (BusinessRuleViolation (NegativeAfterAdjust ''42 / red'')), s')
         \<and> documents s' 1
             = Some (sheet ''ADJUST'' [entry 1 1 (- 4), entry 2 1 (- 8), entry 3 1 3])
         \<and> get_document_by_id s' 1
             = Some (filed ''ADJUST'' [got 1 1 (- 4), got 2 1 (- 8), got 3 1 3])
         \<and> map_option stock_qty (get_variant_by_id s' 1) = Some 6)
   \<and> doc_type (slip ''ADJUST'' [line 1 (- 2)]) = ''ADJUST''
   \<and> \<not> adjust_rejects (shop 10) [] (line 1 (- 2))
   \<and> (\<exists>s'. create_adjustment_order (slip ''ADJUST'' [line 1 (- 2)]) (shop 10)
             = (Inr ((slip ''ADJUST'' [line 1 (- 2)])\<lparr>id_d := Some 1\<rparr>), s')
         \<and> get_document_by_id s' 1 = Some (filed ''ADJUST'' [got 1 1 (- 2)])
         \<and> map_option stock_qty (get_variant_by_id s' 1) = Some 8)"
proof -
  let ?D = "slip ''ADJUST'' [line 1 (- 4), line 1 (- 8), line 1 3]"
  let ?v = "map_row_to_variant 1 (shoe_row 10)"
  have g: "get_variant_by_id (shop 10) 1 = Some ?v" by (simp add: get_variant_by_id_def)
  have t: "doc_type ?D = ''ADJUST''" by simp
  have i: "items ?D = [line 1 (- 4)] @ line 1 (- 8) # [line 1 3]" by simp
  have p: "\<forall>n<length [line 1 (- 4)].
         \<not> adjust_rejects (shop 10) (take n [line 1 (- 4)]) ([line 1 (- 4)] ! n)"
    by (simp add: adjust_rejects_def g map_row_to_variant_def)
  have j: "adjust_rejects (shop 10) [line 1 (- 4)] (line 1 (- 8))"
    by (simp add: adjust_rejects_def g map_row_to_variant_def)
  have g': "get_variant_by_id (shop 10) (variant_id (line 1 (- 8))) = Some ?v"
    using g by simp
  from create_adjustment_order_per_item [OF t, THEN conjunct1, THEN mp,
    OF conjI [OF i conjI [OF p conjI [OF j g']]]]
  obtain s' where r: "create_adjustment_order ?D (shop 10)
             = (Inl (BusinessRuleViolation (NegativeAfterAdjust (display_name ?v))), s')"
    and d: "documents s' (next_doc_id (shop 10))
             = Some (document_row_of (next_item_id (shop 10)) ?D)"
    and f: "get_document_by_id s' (next_doc_id (shop 10))
             = Some (fetched (shop 10) (next_doc_id (shop 10))
                       (document_row_of (next_item_id (shop 10)) ?D))"
    and q: "\<And>k. get_variant_by_id s' k =
        map_option (\<lambda>u. u\<lparr>stock_qty := stock_qty u + qty_sum k [line 1 (- 4)]\<rparr>)
          (get_variant_by_id (shop 10) k)"
    by blast
  have q1: "map_option stock_qty (get_variant_by_id s' 1) = Some 6"
    by (simp add: q g) (simp add: map_row_to_variant_def)
  have d1: "documents s' 1
       = Some (sheet ''ADJUST'' [entry 1 1 (- 4), entry 2 1 (- 8), entry 3 1 3])"
    using d by (simp add: document_row_of_def)
  have f1: "get_document_by_id s' 1
       = Some (filed ''ADJUST'' [got 1 1 (- 4), got 2 1 (- 8), got 3 1 3])"
    using f by (simp add: document_row_of_def fetched_def joined_def map_row_to_item_def)
  have c1: "\<exists>s'. create_adjustment_order ?D (shop 10)
             = (Inl (BusinessRuleViolation (NegativeAfterAdjust ''42 / red'')), s')
         \<and> documents s' 1
             = Some (sheet ''ADJUST'' [entry 1 1 (- 4), entry 2 1 (- 8), entry 3 1 3])
         \<and> get_document_by_id s' 1
             = Some (filed ''ADJUST'' [got 1 1 (- 4), got 2 1 (- 8), got 3 1 3])
         \<and> map_option stock_qty (get_variant_by_id s' 1) = Some 6"
    using r d1 f1 q1 by (simp add: display_name_def map_row_to_variant_def)
  let ?E = "slip ''ADJUST'' [line 1 (- 2)]"
  have t2: "doc_type ?E = ''ADJUST''" by simp
  have p2: "\<forall>n<length (items ?E). \<not> adjust_rejects (shop 10) (take n (items ?E)) (items ?E ! n)"
    by (simp add: adjust_rejects_def g map_row_to_variant_def)
  from create_adjustment_order_per_item [OF t2, THEN conjunct2, THEN mp, OF p2]
  obtain s2 where r2: "create_adjustment_order ?E (shop 10)
             = (Inr (?E\<lparr>id_d := Some (next_doc_id (shop 10))\<rparr>), s2)"
    and f2: "get_document_by_id s2 (next_doc_id (shop 10))
             = Some (fetched (shop 10) (next_doc_id (shop 10))
                       (document_row_of (next_item_id (shop 10)) ?E))"
    and q2: "\<And>k. get_variant_by_id s2 k =
        map_option (\<lambda>u. u\<lparr>stock_qty := stock_qty u + qty_sum k (items ?E)\<rparr>)
          (get_variant_by_id (shop 10) k)"
    by blast
  have "map_option stock_qty (get_variant_by_id s2 1) = Some 8"
    by (simp add: q2 g) (simp add: map_row_to_variant_def)
  moreover have "get_document_by_id s2 1 = Some (filed ''ADJUST'' [got 1 1 (- 2)])"
    using f2 by (simp add: document_row_of_def fetched_def joined_def map_row_to_item_def)
  ultimately have c2: "\<exists>s'. create_adjustment_order ?E (shop 10)
             = (Inr (?E\<lparr>id_d := Some 1\<rparr>), s')
         \<and> get_document_by_id s' 1 = Some (filed ''ADJUST'' [got 1 1 (- 2)])
         \<and> map_option stock_qty (get_variant_by_id s' 1) = Some 8"
    using r2 by simp
  have p': "\<not> adjust_rejects (shop 10) [] (line 1 (- 4))" using p by simp
  have p2': "\<not> adjust_rejects (shop 10) [] (line 1 (- 2))" using p2 by simp
  from t i p' j g c1 t2 p2' c2 show ?thesis by (intro conjI)
qed

text \<open>
  Claim C10. An ADJUST item whose variant does not exist is skipped without an error. The
  header and a row for every item, the skipped one too, are in the document table, and a
  read-back gives the document; the variant is still missing afterwards; the operation
  succeeds or fails, and leaves the variant table, exactly as it does for the document
  without that item. When none of the other items is rejected, the persisted document is
  returned and every existing variant has received the deltas of all the other items,
  those before and those after the skipped one.
\<close>

theorem create_adjustment_order_skips_missing:
  assumes "doc_type d = ''ADJUST''"
    and "items d = pre @ item # post"
    and "get_variant_by_id s (variant_id item) = None"
  shows "\<exists>r s'. create_adjustment_order d s = (r, s')
      \<and> documents s' (next_doc_id s) = Some (document_row_of (next_item_id s) d)
      \<and> get_document_by_id s' (next_doc_id s)
          = Some (fetched s (next_doc_id s) (document_row_of (next_item_id s) d))
      \<and> get_variant_by_id s' (variant_id item) = None
      \<and> map_sum id (\<lambda>saved. ()) r =
          map_sum id (\<lambda>saved. ()) (fst (create_adjustment_order (d\<lparr>items := pre @ post\<rparr>) s))
      \<and> variants s' = variants (snd (create_adjustment_order (d\<lparr>items := pre @ post\<rparr>) s))
      \<and> ((\<forall>n<length (pre @ post).
              \<not> adjust_rejects s (take n (pre @ post)) ((pre @ post) ! n)) \<longrightarrow>
           r = Inr (d\<lparr>id_d := Some (next_doc_id s)\<rparr>)
           \<and> (\<forall>k. get_variant_by_id s' k =
                 map_option (\<lambda>u. u\<lparr>stock_qty := stock_qty u + qty_sum k (pre @ post)\<rparr>)
                   (get_variant_by_id s k)))"
proof -
  let ?n = "next_doc_id s"
  let ?d = "d\<lparr>id_d := Some ?n\<rparr>"
  let ?s0 = "snd (add_document d s)"
  let ?e = "d\<lparr>items := pre @ post\<rparr>"
  let ?t0 = "snd (add_document ?e s)"
  obtain r s1 where a: "adjust_items (pre @ post) ?s0 = (r, s1)"
    by (cases "adjust_items (pre @ post) ?s0")
  have g0: "get_variant_by_id ?s0 (variant_id item) = None" using assms(3) by simp
  have a': "adjust_items (items d) ?s0 = (r, s1)"
    by (simp only: assms(2) adjust_items_skip [OF g0] a)
  have c: "create_adjustment_order d s =
     (case r of Inl e \<Rightarrow> (Inl e, s1) | Inr u \<Rightarrow> (Inr ?d, s1))"
    using assms(1) a' by (simp add: create_adjustment_order_def case_prod_unfold split: sum.splits)
  have "variants ?t0 = variants ?s0" by simp
  from adjust_items_variants [OF this, of "pre @ post"] a
  have b: "fst (adjust_items (pre @ post) ?t0) = r"
    "variants (snd (adjust_items (pre @ post) ?t0)) = variants s1"
    by simp_all
  have c': "fst (create_adjustment_order ?e s) = map_sum id (\<lambda>u. ?e\<lparr>id_d := Some ?n\<rparr>) r"
    "variants (snd (create_adjustment_order ?e s)) = variants s1"
    using assms(1) b
    by (simp_all add: create_adjustment_order_def case_prod_unfold split: sum.splits)
  from adjust_items_add_stock [of "pre @ post" ?s0] a obtain g where s1: "s1 = add_stock g ?s0"
    by auto
  have m: "get_variant_by_id s1 (variant_id item) = None"
    using assms(3) by (simp add: s1 get_add_stock)
  have doc: "documents s1 ?n = Some (document_row_of (next_item_id s) d)"
    "get_document_by_id s1 ?n = Some (fetched s ?n (document_row_of (next_item_id s) d))"
    by (simp_all add: s1)
  have acc: "r = Inr () \<and> (\<forall>k. get_variant_by_id s1 k =
                 map_option (\<lambda>u. u\<lparr>stock_qty := stock_qty u + qty_sum k (pre @ post)\<rparr>)
                   (get_variant_by_id s k))"
    if h: "\<forall>n<length (pre @ post). \<not> adjust_rejects s (take n (pre @ post)) ((pre @ post) ! n)"
  proof -
    have "adjust_items (pre @ post) ?s0
        = (Inr (), add_stock (\<lambda>k. qty_sum k (pre @ post)) ?s0)"
      using h by (intro adjust_items_accepts) simp
    with a have "r = Inr ()" "s1 = add_stock (\<lambda>k. qty_sum k (pre @ post)) ?s0" by simp_all
    then show ?thesis by (simp add: get_add_stock)
  qed
  show ?thesis
  proof (cases r)
    case (Inl e)
    then show ?thesis using m doc acc by (auto simp: c c')
  next
    case (Inr u)
    then show ?thesis using m doc acc by (auto simp: c c')
  qed
qed

text \<open>
  A first item on the missing variant 9, then a delta of \<open>-2\<close> on variant 1: both rows
  are stored, the read-back gives the second item only, and the stock is 8.
\<close>

theorem create_adjustment_order_skips_missing_witness:
  "doc_type (slip ''ADJUST'' [line 9 4, line 1 (- 2)]) = ''ADJUST''
   \<and> items (slip ''ADJUST'' [line 9 4, line 1 (- 2)]) = [] @ line 9 4 # [line 1 (- 2)]
   \<and> get_variant_by_id (shop 10) (variant_id (line 9 4)) = None
   \<and> \<not> adjust_rejects (shop 10) [] (line 1 (- 2))
   \<and> (\<exists>s'. create_adjustment_order (slip ''ADJUST'' [line 9 4, line 1 (- 2)]) (shop 10)
               = (Inr ((slip ''ADJUST'' [line 9 4, line 1 (- 2)])\<lparr>id_d := Some 1\<rparr>), s')
         \<and> documents s' 1 = Some (sheet ''ADJUST'' [entry 1 9 4, entry 2 1 (- 2)])
         \<and> get_document_by_id s' 1 = Some (filed ''ADJUST'' [got 2 1 (- 2)])
         \<and> get_variant_by_id s' 9 = None
         \<and> map_option stock_qty (get_variant_by_id s' 1) = Some 8)"
proof -
  let ?D = "slip ''ADJUST'' [line 9 4, line 1 (- 2)]"
  have t: "doc_type ?D = ''ADJUST''" by simp
  have i: "items ?D = [] @ line 9 4 # [line 1 (- 2)]" by simp
  have m: "get_variant_by_id (shop 10) (variant_id (line 9 4)) = None"
    by (simp add: get_variant_by_id_def)
  have g: "get_variant_by_id (shop 10) 1 = Some (map_row_to_variant 1 (shoe_row 10))"
    by (simp add: get_variant_by_id_def)
  have p: "\<forall>n<length ([] @ [line 1 (- 2)]).
      \<not> adjust_rejects (shop 10) (take n ([] @ [line 1 (- 2)])) (([] @ [line 1 (- 2)]) ! n)"
    by (simp add: adjust_rejects_def g map_row_to_variant_def)
  from create_adjustment_order_skips_missing [OF t i m]
  obtain r s' where c: "create_adjustment_order ?D (shop 10) = (r, s')"
    and d: "documents s' (next_doc_id (shop 10))
             = Some (document_row_of (next_item_id (shop 10)) ?D)"
    and f: "get_document_by_id s' (next_doc_id (shop 10))
             = Some (fetched (shop 10) (next_doc_id (shop 10))
                       (document_row_of (next_item_id (shop 10)) ?D))"
    and n: "get_variant_by_id s' (variant_id (line 9 4)) = None"
    and a: "(\<forall>n<length ([] @ [line 1 (- 2)]).
              \<not> adjust_rejects (shop 10) (take n ([] @ [line 1 (- 2)]))
                   (([] @ [line 1 (- 2)]) ! n)) \<longrightarrow>
           r = Inr (?D\<lparr>id_d := Some (next_doc_id (shop 10))\<rparr>)
           \<and> (\<forall>k. get_variant_by_id s' k =
                 map_option (\<lambda>u. u\<lparr>stock_qty := stock_qty u + qty_sum k ([] @ [line 1 (- 2)])\<rparr>)
                   (get_variant_by_id (shop 10) k))"
    by blast
  from a p have r: "r = Inr (?D\<lparr>id_d := Some (next_doc_id (shop 10))\<rparr>)"
    and q: "\<And>k. get_variant_by_id s' k =
                 map_option (\<lambda>u. u\<lparr>stock_qty := stock_qty u + qty_sum k ([] @ [line 1 (- 2)])\<rparr>)
                   (get_variant_by_id (shop 10) k)"
    by blast+
  have q1: "map_option stock_qty (get_variant_by_id s' 1) = Some 8"
    by (simp add: q g) (simp add: map_row_to_variant_def)
  have d1: "documents s' 1 = Some (sheet ''ADJUST'' [entry 1 9 4, entry 2 1 (- 2)])"
    using d by (simp add: document_row_of_def)
  have f1: "get_document_by_id s' 1 = Some (filed ''ADJUST'' [got 2 1 (- 2)])"
    using f by (simp add: document_row_of_def fetched_def joined_def map_row_to_item_def)
  have p': "\<not> adjust_rejects (shop 10) [] (line 1 (- 2))" using p by simp
  have n': "get_variant_by_id s' 9 = None" using n by simp
  have "\<exists>s'. create_adjustment_order ?D (shop 10) = (Inr (?D\<lparr>id_d := Some 1\<rparr>), s')
         \<and> documents s' 1 = Some (sheet ''ADJUST'' [entry 1 9 4, entry 2 1 (- 2)])
         \<and> get_document_by_id s' 1 = Some (filed ''ADJUST'' [got 2 1 (- 2)])
         \<and> get_variant_by_id s' 9 = None
         \<and> map_option stock_qty (get_variant_by_id s' 1) = Some 8"
    using c r d1 f1 n' q1 by simp
  with t i m p' show ?thesis by (intro conjI)
qed

subsection \<open>Deleting a document\<close>

text \<open>
  Claim C4. The impacts computed by \<open>delete_document\<close> hold exactly one entry for each
  variant the document references, and the entry is the sum of the reversal deltas of
  the items on that variant: minus the quantity for INBOUND and ADJUST, the quantity for
  OUTBOUND. Two OUTBOUND items of 3 and 4 on one variant give the single entry 7. When
  the deletion succeeds, every existing variant has received its net impact, once.
\<close>

theorem net_impact_aggregation:
  "distinct (map fst (compute_impacts t xs []))
   \<and> set (compute_impacts t xs []) = (\<lambda>k. (k, net_impact t xs k)) ` variant_id ` set xs
   \<and> rollback_change ''INBOUND'' item = - quantity item
   \<and> rollback_change ''OUTBOUND'' item = quantity item
   \<and> rollback_change ''ADJUST'' item = - quantity item
   \<and> compute_impacts ''OUTBOUND'' [line k 3, line k 4] [] = [(k, 7)]
   \<and> (get_document_by_id s doc_id = Some doc \<and> fst (delete_document doc_id s) = Inr () \<longrightarrow>
        (\<forall>j. get_variant_by_id (snd (delete_document doc_id s)) j =
           map_option (\<lambda>v. v\<lparr>stock_qty :=
               stock_qty v + net_impact (doc_type doc) (items doc) j\<rparr>)
             (get_variant_by_id s j)))"
proof -
  have 1: "distinct (map fst (compute_impacts t xs []))"
    by (rule distinct_compute) simp
  have 2: "set (compute_impacts t xs []) = (\<lambda>k. (k, net_impact t xs k)) ` variant_id ` set xs"
  proof (rule set_eqI)
    fix p :: "int \<times> int"
    have "p \<in> set (compute_impacts t xs []) \<longleftrightarrow>
          fst p \<in> variant_id ` set xs \<and> snd p = net_impact t xs (fst p)"
      using impacts_mem [of "fst p" "snd p" t xs] by simp
    also have "\<dots> \<longleftrightarrow> p \<in> (\<lambda>k. (k, net_impact t xs k)) ` variant_id ` set xs"
      by (cases p) auto
    finally show "p \<in> set (compute_impacts t xs []) \<longleftrightarrow>
          p \<in> (\<lambda>k. (k, net_impact t xs k)) ` variant_id ` set xs" .
  qed
  have 3: "rollback_change ''INBOUND'' item = - quantity item"
    "rollback_change ''OUTBOUND'' item = quantity item"
    "rollback_change ''ADJUST'' item = - quantity item"
    by (simp_all add: rollback_change_def)
  have 4: "compute_impacts ''OUTBOUND'' [line k 3, line k 4] [] = [(k, 7)]"
    by (simp add: impacts_get_def rollback_change_def)
  have 5: "get_document_by_id s doc_id = Some doc \<and> fst (delete_document doc_id s) = Inr () \<longrightarrow>
        (\<forall>j. get_variant_by_id (snd (delete_document doc_id s)) j =
           map_option (\<lambda>v. v\<lparr>stock_qty :=
               stock_qty v + net_impact (doc_type doc) (items doc) j\<rparr>)
             (get_variant_by_id s j))"
  proof (intro impI allI, elim conjE)
    fix j
    assume d: "get_document_by_id s doc_id = Some doc"
    assume "fst (delete_document doc_id s) = Inr ()"
    then have "delete_document doc_id s = (Inr (), repo_delete_document doc_id
                   (add_stock (net_impact (doc_type doc) (items doc)) s))"
      by (simp add: delete_document_eq [OF d] split: option.splits)
    then show "get_variant_by_id (snd (delete_document doc_id s)) j =
           map_option (\<lambda>v. v\<lparr>stock_qty :=
               stock_qty v + net_impact (doc_type doc) (items doc) j\<rparr>)
             (get_variant_by_id s j)"
      by (simp add: get_add_stock)
  qed
  from 1 2 3 4 5 show ?thesis by (intro conjI)
qed

text \<open>
  A stored OUTBOUND document with items of 3 and 4 on variant 1, whose stock is 0: the
  deletion succeeds and the stock is 7.
\<close>

theorem net_impact_aggregation_witness:
  "compute_impacts ''OUTBOUND'' [line 1 3, line 1 4] [] = [(1, 7)]
   \<and> get_document_by_id (shop_with 0 (sheet ''OUTBOUND'' [entry 1 1 3, entry 2 1 4])) 1
       = Some (filed ''OUTBOUND'' [got 1 1 3, got 2 1 4])
   \<and> fst (delete_document 1 (shop_with 0 (sheet ''OUTBOUND'' [entry 1 1 3, entry 2 1 4])))
       = Inr ()
   \<and> map_option stock_qty (get_variant_by_id
        (snd (delete_document 1 (shop_with 0 (sheet ''OUTBOUND'' [entry 1 1 3, entry 2 1 4]))))
        1)
       = Some 7"
proof -
  let ?D = "filed ''OUTBOUND'' [got 1 1 3, got 2 1 4]"
  let ?S = "shop_with 0 (sheet ''OUTBOUND'' [entry 1 1 3, entry 2 1 4])"
  note a = net_impact_aggregation [of "''OUTBOUND''" "[line 1 3, line 1 4]" "line 1 3" 1 ?S 1 ?D]
  have i: "compute_impacts ''OUTBOUND'' [line 1 3, line 1 4] [] = [(1, 7)]"
    using a by blast
  have h: "get_document_by_id ?S 1 = Some ?D"
    by (simp add: get_document_by_id_def map_row_to_document_def map_row_to_item_def joined_def)
  have f: "fst (delete_document 1 ?S) = Inr ()"
    by (simp add: delete_document_def h) (simp add: eval_defs)
  from a h f have "get_variant_by_id (snd (delete_document 1 ?S)) 1 =
     map_option (\<lambda>v. v\<lparr>stock_qty := stock_qty v + net_impact (doc_type ?D) (items ?D) 1\<rparr>)
       (get_variant_by_id ?S 1)"
    by blast
  moreover have "get_variant_by_id ?S 1 = Some (map_row_to_variant 1 (shoe_row 0))"
    by (simp add: get_variant_by_id_def)
  ultimately
  have "map_option stock_qty (get_variant_by_id (snd (delete_document 1 ?S)) 1) = Some 7"
    by (simp add: map_row_to_variant_def rollback_change_def)
  with i h f show ?thesis by blast
qed

text \<open>
  Claim C3. For a stored document, \<open>delete_document\<close> is refused exactly when the
  rollback is blocked by a referenced variant, that is, by an existing variant with a
  negative net impact that its stock cannot absorb. The refusal is a
  \<open>BusinessRuleViolation\<close> that carries the variant's name, its stock and the
  amount to take off, and it returns the store as it was: no stock has changed and the
  document is still there. A variant whose net impact is zero or positive is never
  compared with its stock; when no variant blocks, the deletion succeeds, the document
  is gone and every existing variant has received its net impact.
\<close>

theorem delete_document_strict_check:
  assumes "get_document_by_id s doc_id = Some doc"
  shows "((\<exists>k\<in>variant_id ` set (items doc). rollback_blocked s doc k) \<longrightarrow>
           (\<exists>k v. k \<in> variant_id ` set (items doc) \<and> rollback_blocked s doc k
              \<and> get_variant_by_id s k = Some v
              \<and> delete_document doc_id s =
                  (Inl (BusinessRuleViolation (RollbackShort (display_name v) (stock_qty v)
                     \<bar>net_impact (doc_type doc) (items doc) k\<bar>)), s)))
       \<and> ((\<forall>k\<in>variant_id ` set (items doc). \<not> rollback_blocked s doc k) \<longrightarrow>
           (\<exists>s'. delete_document doc_id s = (Inr (), s')
              \<and> get_document_by_id s' doc_id = None
              \<and> (\<forall>k. get_variant_by_id s' k =
                    map_option (\<lambda>v. v\<lparr>stock_qty :=
                        stock_qty v + net_impact (doc_type doc) (items doc) k\<rparr>)
                      (get_variant_by_id s k))))"
proof (intro conjI impI)
  let ?al = "compute_impacts (doc_type doc) (items doc) []"
  note d = assms
  {
    assume "\<exists>k\<in>variant_id ` set (items doc). rollback_blocked s doc k"
    then have "strict_check ?al s \<noteq> None" by (simp add: strict_check_blocked)
    then obtain e where e: "strict_check ?al s = Some e" by auto
    from strict_check_Some [OF e] obtain k c v where
      m: "(k, c) \<in> set ?al" and c: "c < 0" and v: "get_variant_by_id s k = Some v"
      and lt: "stock_qty v + c < 0"
      and ee: "e = BusinessRuleViolation (RollbackShort (display_name v) (stock_qty v) \<bar>c\<bar>)"
      by blast
    from m have k: "k \<in> variant_id ` set (items doc)"
      and cn: "c = net_impact (doc_type doc) (items doc) k"
      by (simp_all add: impacts_mem)
    have b: "rollback_blocked s doc k"
      using c lt v cn by (simp add: rollback_blocked_def)
    have "delete_document doc_id s = (Inl e, s)"
      by (simp add: delete_document_eq [OF d] e)
    with k b v ee cn
    show "\<exists>k v. k \<in> variant_id ` set (items doc) \<and> rollback_blocked s doc k
              \<and> get_variant_by_id s k = Some v
              \<and> delete_document doc_id s =
                  (Inl (BusinessRuleViolation (RollbackShort (display_name v) (stock_qty v)
                     \<bar>net_impact (doc_type doc) (items doc) k\<bar>)), s)"
      by blast
  }
  {
    assume "\<forall>k\<in>variant_id ` set (items doc). \<not> rollback_blocked s doc k"
    then have "strict_check ?al s = None" by (simp add: strict_check_blocked)
    then show "\<exists>s'. delete_document doc_id s = (Inr (), s')
              \<and> get_document_by_id s' doc_id = None
              \<and> (\<forall>k. get_variant_by_id s' k =
                    map_option (\<lambda>v. v\<lparr>stock_qty :=
                        stock_qty v + net_impact (doc_type doc) (items doc) k\<rparr>)
                      (get_variant_by_id s k))"
      by (simp add: delete_document_eq [OF d] get_add_stock)
  }
qed

text \<open>
  An INBOUND document of 5 on a variant whose stock has since fallen to 3 cannot be
  deleted. An OUTBOUND document of 2 on a variant with stock 0 can: the impact is
  positive, and the stock is 2 afterwards.
\<close>

theorem delete_document_strict_check_witness:
  "get_document_by_id (shop_with 3 (sheet ''INBOUND'' [entry 1 1 5])) 1
     = Some (filed ''INBOUND'' [got 1 1 5])
   \<and> (\<exists>k\<in>variant_id ` set (items (filed ''INBOUND'' [got 1 1 5])).
         rollback_blocked (shop_with 3 (sheet ''INBOUND'' [entry 1 1 5]))
           (filed ''INBOUND'' [got 1 1 5]) k)
   \<and> delete_document 1 (shop_with 3 (sheet ''INBOUND'' [entry 1 1 5]))
       = (Inl (BusinessRuleViolation (RollbackShort ''42 / red'' 3 5)),
          shop_with 3 (sheet ''INBOUND'' [entry 1 1 5]))
   \<and> get_document_by_id (shop_with 0 (sheet ''OUTBOUND'' [entry 1 1 2])) 1
     = Some (filed ''OUTBOUND'' [got 1 1 2])
   \<and> \<not> rollback_blocked (shop_with 0 (sheet ''OUTBOUND'' [entry 1 1 2]))
           (filed ''OUTBOUND'' [got 1 1 2]) 1
   \<and> (\<exists>s'. delete_document 1 (shop_with 0 (sheet ''OUTBOUND'' [entry 1 1 2])) = (Inr (), s')
         \<and> get_document_by_id s' 1 = None
         \<and> map_option stock_qty (get_variant_by_id s' 1) = Some 2)"
proof -
  let ?D = "filed ''INBOUND'' [got 1 1 5]"
  let ?S = "shop_with 3 (sheet ''INBOUND'' [entry 1 1 5])"
  let ?E = "filed ''OUTBOUND'' [got 1 1 2]"
  let ?T = "shop_with 0 (sheet ''OUTBOUND'' [entry 1 1 2])"
  have h1: "get_document_by_id ?S 1 = Some ?D"
    by (simp add: get_document_by_id_def map_row_to_document_def map_row_to_item_def joined_def)
  have b1: "\<exists>k\<in>variant_id ` set (items ?D). rollback_blocked ?S ?D k"
    by (simp add: rollback_blocked_def get_variant_by_id_def map_row_to_variant_def
          rollback_change_def)
  from delete_document_strict_check [OF h1, THEN conjunct1, THEN mp, OF b1]
  obtain k v where k: "k \<in> variant_id ` set (items ?D)"
    and v: "get_variant_by_id ?S k = Some v"
    and r: "delete_document 1 ?S =
       (Inl (BusinessRuleViolation (RollbackShort (display_name v) (stock_qty v)
          \<bar>net_impact (doc_type ?D) (items ?D) k\<bar>)), ?S)"
    by blast
  from k have k1: "k = 1" by simp
  from v k1 have v1: "v = map_row_to_variant 1 (shoe_row 3)"
    by (simp add: get_variant_by_id_def)
  have r1: "delete_document 1 ?S =
       (Inl (BusinessRuleViolation (RollbackShort ''42 / red'' 3 5)), ?S)"
    using r by (simp add: k1 v1 map_row_to_variant_def display_name_def rollback_change_def)
  have h2: "get_document_by_id ?T 1 = Some ?E"
    by (simp add: get_document_by_id_def map_row_to_document_def map_row_to_item_def joined_def)
  have b2: "\<forall>k\<in>variant_id ` set (items ?E). \<not> rollback_blocked ?T ?E k"
    by (simp add: rollback_blocked_def get_variant_by_id_def map_row_to_variant_def
          rollback_change_def)
  from delete_document_strict_check [OF h2, THEN conjunct2, THEN mp, OF b2]
  obtain s' where s': "delete_document 1 ?T = (Inr (), s')"
    "get_document_by_id s' 1 = None"
    and q: "\<And>k. get_variant_by_id s' k =
         map_option (\<lambda>v. v\<lparr>stock_qty := stock_qty v + net_impact (doc_type ?E) (items ?E) k\<rparr>)
           (get_variant_by_id ?T k)"
    by blast
  have "map_option stock_qty (get_variant_by_id s' 1) = Some 2"
    by (simp add: q) (simp add: get_variant_by_id_def map_row_to_variant_def rollback_change_def)
  moreover have "\<not> rollback_blocked ?T ?E 1"
    using b2 by simp
  ultimately show ?thesis using h1 b1 r1 h2 s' by blast
qed

text \<open>
  Claim C5, as amended. Creating an INBOUND document and deleting it again restores the
  variant table when every referenced variant exists together with the row of its
  product, so that the read-back returns every item, and holds a stock that is not
  negative before the creation; the quantities are arbitrary. The created document
  carries an id, the deletion under that id succeeds, and afterwards the variant table
  is the one before the creation and the document is gone.
\<close>

theorem inbound_round_trip:
  assumes "doc_type d = ''INBOUND''"
    and "\<forall>item\<in>set (items d). \<exists>v. get_variant_by_id s (variant_id item) = Some v
           \<and> 0 \<le> stock_qty v \<and> products s (product_id v) \<noteq> None"
  shows "\<exists>saved k s1 s2. create_inbound_order d s = (Inr saved, s1) \<and> id_d saved = Some k
      \<and> delete_document k s1 = (Inr (), s2)
      \<and> variants s2 = variants s \<and> get_document_by_id s2 k = None"
proof -
  let ?n = "next_doc_id s"
  let ?d = "d\<lparr>id_d := Some ?n\<rparr>"
  let ?s0 = "snd (add_document d s)"
  let ?s1 = "add_stock (\<lambda>k. qty_sum k (items d)) ?s0"
  let ?xs = "map map_row_to_item (item_rows (next_item_id s) (items d))"
  let ?R = "\<lparr>doc_type = doc_type d, items = ?xs, note_d = note_d d, id_d = Some ?n\<rparr>"
  have c: "create_inbound_order d s = (Inr ?d, ?s1)"
    using assms(1) by (simp add: create_inbound_order_def case_prod_unfold inbound_items_eq)
  have j: "\<forall>item\<in>set (items d).
      joined s \<lparr>row_id_i = 0, row_variant_id = variant_id item, row_quantity = 0\<rparr>"
  proof
    fix item assume "item \<in> set (items d)"
    with assms(2) obtain v where "get_variant_by_id s (variant_id item) = Some v"
      "products s (product_id v) \<noteq> None" by blast
    then show "joined s \<lparr>row_id_i = 0, row_variant_id = variant_id item, row_quantity = 0\<rparr>"
      by (auto simp: joined_def get_variant_by_id_def map_row_to_variant_def)
  qed
  have "fetched s ?n (document_row_of (next_item_id s) d) = ?R"
    by (simp add: fetched_def document_row_of_def item_rows_all_joined [OF j])
  then have doc: "get_document_by_id ?s1 ?n = Some ?R" by simp
  have nb: "\<forall>k\<in>variant_id ` set (items ?R). \<not> rollback_blocked ?s1 ?R k"
  proof
    fix k assume "k \<in> variant_id ` set (items ?R)"
    then have "k \<in> variant_id ` set ?xs" by (simp only: document.simps)
    then have "k \<in> variant_id ` set (items d)" by (simp only: variant_ids_item_rows)
    then obtain item where "item \<in> set (items d)" "k = variant_id item" by auto
    with assms(2) obtain v where v: "get_variant_by_id s k = Some v" "0 \<le> stock_qty v"
      by blast
    then show "\<not> rollback_blocked ?s1 ?R k"
      using assms(1)
      by (simp add: rollback_blocked_def get_add_stock net_impact_item_rows net_impact_INBOUND)
  qed
  have sc: "strict_check (compute_impacts (doc_type ?R) (items ?R) []) ?s1 = None"
    using nb by (simp only: strict_check_blocked)
  let ?s2 = "repo_delete_document ?n (add_stock (net_impact (doc_type ?R) (items ?R)) ?s1)"
  have del: "delete_document ?n ?s1 = (Inr (), ?s2)"
    by (simp only: delete_document_eq [OF doc] sc option.case)
  have "add_stock (net_impact (doc_type ?R) (items ?R)) ?s1 = add_stock (\<lambda>k. 0) ?s0"
    using assms(1) by (simp add: add_stock_add_stock net_impact_item_rows net_impact_INBOUND)
  then have v2: "variants ?s2 = variants s"
    by (simp add: add_stock_zero)
  have g2: "get_document_by_id ?s2 ?n = None" by simp
  from c del v2 g2 show ?thesis
    by (intro exI [of _ ?d] exI [of _ ?n] exI [of _ ?s1] exI [of _ ?s2]) simp
qed

text \<open>The scenario of the specification: stock 10, inbound 5, deleted again.\<close>

theorem inbound_round_trip_witness:
  "doc_type (slip ''INBOUND'' [line 1 5]) = ''INBOUND''
   \<and> map_option stock_qty (get_variant_by_id (shop 10) (variant_id (line 1 5))) = Some 10
   \<and> map_option row_name (products (shop 10) 1) = Some ''runner''
   \<and> (\<exists>saved k s1 s2.
        create_inbound_order (slip ''INBOUND'' [line 1 5]) (shop 10) = (Inr saved, s1)
        \<and> id_d saved = Some k
        \<and> delete_document k s1 = (Inr (), s2)
        \<and> variants s2 = [1 \<mapsto> shoe_row 10] \<and> get_document_by_id s2 k = None)"
proof -
  have t: "doc_type (slip ''INBOUND'' [line 1 5]) = ''INBOUND''" by simp
  have e: "\<forall>item\<in>set (items (slip ''INBOUND'' [line 1 5])).
        \<exists>v. get_variant_by_id (shop 10) (variant_id item) = Some v \<and> 0 \<le> stock_qty v
          \<and> products (shop 10) (product_id v) \<noteq> None"
    by (simp add: get_variant_by_id_def map_row_to_variant_def)
  have q: "map_option stock_qty (get_variant_by_id (shop 10) (variant_id (line 1 5))) = Some 10"
    "map_option row_name (products (shop 10) 1) = Some ''runner''"
    by (simp_all add: get_variant_by_id_def map_row_to_variant_def)
  from inbound_round_trip [OF t e] t q show ?thesis by simp
qed

text \<open>
  Claim C5 as it was stated, for every INBOUND document whose referenced variants exist,
  does not hold. With stock \<open>-1\<close> and an inbound item of 1 the creation succeeds and
  the stock is 0, but the deletion is refused by the strict check and the stock stays
  at 0. With stock 10, an inbound item of 5 and no row for the variant's product, the
  read-back returns no item, the deletion succeeds and the stock stays at 15.
\<close>

theorem inbound_round_trip_counterexample:
  "map_option stock_qty (get_variant_by_id (shop (- 1)) 1) = Some (- 1)
   \<and> fst (create_inbound_order (slip ''INBOUND'' [line 1 1]) (shop (- 1)))
       = Inr ((slip ''INBOUND'' [line 1 1])\<lparr>id_d := Some 1\<rparr>)
   \<and> delete_document 1 (snd (create_inbound_order (slip ''INBOUND'' [line 1 1]) (shop (- 1))))
       = (Inl (BusinessRuleViolation (RollbackShort ''42 / red'' 0 1)),
          snd (create_inbound_order (slip ''INBOUND'' [line 1 1]) (shop (- 1))))
   \<and> map_option stock_qty (get_variant_by_id
        (snd (create_inbound_order (slip ''INBOUND'' [line 1 1]) (shop (- 1)))) 1) = Some 0
   \<and> map_option stock_qty (get_variant_by_id (bare_shop 10) 1) = Some 10
   \<and> fst (create_inbound_order (slip ''INBOUND'' [line 1 5]) (bare_shop 10))
       = Inr ((slip ''INBOUND'' [line 1 5])\<lparr>id_d := Some 1\<rparr>)
   \<and> fst (delete_document 1
        (snd (create_inbound_order (slip ''INBOUND'' [line 1 5]) (bare_shop 10)))) = Inr ()
   \<and> map_option stock_qty (get_variant_by_id (snd (delete_document 1
        (snd (create_inbound_order (slip ''INBOUND'' [line 1 5]) (bare_shop 10))))) 1)
       = Some 15"
  by (simp add: create_inbound_order_def delete_document_def eval_defs)




subsection \<open>Where the stock invariant is kept\<close>

text \<open>
  The other paths keep every stock non-negative: an inbound order whose quantities are
  not negative, an outbound order whose items are on pairwise different variants, every
  adjustment order (also one that fails half way), and every deletion. An inbound order
  with a negative quantity is not checked and can lower a stock below zero.
\<close>

lemma inbound_keeps_stock_nonneg:
  assumes "stock_nonneg s" and "\<forall>i\<in>set (items d). 0 \<le> quantity i"
  shows "stock_nonneg (snd (create_inbound_order d s))"
proof (cases "doc_type d = ''INBOUND''")
  case False
  then show ?thesis using assms(1) by (simp add: create_inbound_order_def)
next
  case True
  have "0 \<le> stock_qty v + qty_sum k (items d)" if "get_variant_by_id s k = Some v" for k v
    using that assms(1) qty_sum_nonneg [OF assms(2), of k] by (auto simp: stock_nonneg_def)
  then show ?thesis
    using True
    by (simp add: create_inbound_order_def case_prod_unfold inbound_items_eq
          stock_nonneg_add_stock)
qed

lemma outbound_keeps_stock_nonneg:
  assumes "stock_nonneg s" and "distinct (map variant_id (items d))"
  shows "stock_nonneg (snd (create_outbound_order d s))"
proof (cases "doc_type d = ''OUTBOUND'' \<and> outbound_precheck (items d) s = None")
  case False
  then show ?thesis
    using assms(1) by (auto simp: create_outbound_order_def)
next
  case True
  then have ok: "\<forall>i\<in>set (items d). \<not> item_unavailable s i"
    by (simp add: outbound_precheck_None)
  let ?s0 = "snd (add_document d s)"
  have ex: "\<forall>i\<in>set (items d). get_variant_by_id ?s0 (variant_id i) \<noteq> None"
    using ok by (auto simp: item_unavailable_def split: option.splits)
  have r: "snd (create_outbound_order d s) = add_stock (\<lambda>k. - qty_sum k (items d)) ?s0"
    using True
    by (simp add: create_outbound_order_def case_prod_unfold outbound_items_eq [OF ex])
  have "0 \<le> stock_qty v + - qty_sum k (items d)" if g: "get_variant_by_id s k = Some v" for k v
  proof (cases "k \<in> variant_id ` set (items d)")
    case False
    then show ?thesis using g assms(1) by (auto simp: qty_sum_notin stock_nonneg_def)
  next
    case True
    then obtain i where i: "i \<in> set (items d)" "k = variant_id i" by auto
    from ok i(1) have "\<not> item_unavailable s i" by blast
    with g i(2) have "quantity i \<le> stock_qty v" by (simp add: item_unavailable_def)
    with qty_sum_distinct [OF assms(2) i(1)] i(2) show ?thesis by simp
  qed
  then show ?thesis by (simp add: r stock_nonneg_add_stock)
qed

lemma adjustment_keeps_stock_nonneg:
  assumes "stock_nonneg s"
  shows "stock_nonneg (snd (create_adjustment_order d s))"
proof (cases "doc_type d = ''ADJUST''")
  case False
  then show ?thesis using assms by (simp add: create_adjustment_order_def)
next
  case True
  let ?s0 = "snd (add_document d s)"
  have "stock_nonneg (snd (adjust_items (items d) ?s0))"
    using assms by (intro adjust_items_keeps_stock_nonneg) simp
  then show ?thesis
    using True
    by (cases "adjust_items (items d) ?s0")
       (auto simp: create_adjustment_order_def case_prod_unfold split: sum.splits)
qed

lemma delete_keeps_stock_nonneg:
  assumes "stock_nonneg s"
  shows "stock_nonneg (snd (delete_document doc_id s))"
proof (cases "get_document_by_id s doc_id")
  case None
  then show ?thesis using assms by (simp add: delete_document_def)
next
  case (Some doc)
  note d = Some
  show ?thesis
  proof (cases "strict_check (compute_impacts (doc_type doc) (items doc) []) s")
    case (Some e)
    then show ?thesis using assms by (simp add: delete_document_eq [OF d])
  next
    case None
    then have nb: "\<forall>k\<in>variant_id ` set (items doc). \<not> rollback_blocked s doc k"
      by (simp only: strict_check_blocked)
    have "0 \<le> stock_qty v + net_impact (doc_type doc) (items doc) k"
      if g: "get_variant_by_id s k = Some v" for k v
    proof (cases "k \<in> variant_id ` set (items doc)")
      case False
      then show ?thesis using g assms by (auto simp: net_impact_notin stock_nonneg_def)
    next
      case True
      with nb have "\<not> rollback_blocked s doc k" by blast
      moreover from g assms have "0 \<le> stock_qty v" by (auto simp: stock_nonneg_def)
      ultimately show ?thesis using g by (auto simp: rollback_blocked_def)
    qed
    then show ?thesis
      by (simp add: delete_document_eq [OF d] None stock_nonneg_add_stock)
  qed
qed

end
